theory Spec2Isabelle
  imports Main "HOL-Library.AList" "HOL-Library.Word"
begin

section \<open>Python values used by the bridge\<close>

text \<open>
  A Python \<open>str\<close> is modelled as a \<open>string\<close>, one \<open>char\<close> per code point, so that
  \<open>length\<close> is Python's \<open>len\<close>. HOL's \<open>char\<close> covers the code points 0 to 255; the
  character classes below (\<open>str.isspace\<close>, \<open>str.lower\<close>, \<open>str.isprintable\<close>) are
  Python's on that range. The text that decoding a datagram yields can hold any code
  point, so there it is a list of code points (natural numbers). A \<open>bytes\<close> object is
  a list of 8-bit words. A \<open>dict\<close> with
  string keys and string values is an association list in insertion order, written only
  by \<open>AList.update\<close>: storing under a key that is present replaces the value in place,
  storing under a new key appends, as Python's \<open>d[k] = v\<close> does.
\<close>

type_synonym bytes = "8 word list"
type_synonym pydict = "(string \<times> string) list"

datatype exc = Exception string

fun exc_str :: "exc \<Rightarrow> string" where
  "exc_str (Exception msg) = msg"

subsection \<open>Strings\<close>

definition py_isspace :: "char \<Rightarrow> bool" where
  "py_isspace c =
     (let n = (of_char c :: nat)
      in (9 \<le> n \<and> n \<le> 13) \<or> (28 \<le> n \<and> n \<le> 32) \<or> n = 133 \<or> n = 160)"

definition py_lower_char :: "char \<Rightarrow> char" where
  "py_lower_char c =
     (let n = (of_char c :: nat)
      in if (65 \<le> n \<and> n \<le> 90) \<or> (192 \<le> n \<and> n \<le> 222 \<and> n \<noteq> 215)
         then char_of (n + 32) else c)"

definition py_isprintable :: "char \<Rightarrow> bool" where
  "py_isprintable c =
     (let n = (of_char c :: nat)
      in (32 \<le> n \<and> n \<le> 126) \<or> (161 \<le> n \<and> n \<noteq> 173))"

definition py_strip :: "string \<Rightarrow> string" where
  "py_strip s = rev (dropWhile py_isspace (rev (dropWhile py_isspace s)))"

definition py_lower :: "string \<Rightarrow> string" where
  "py_lower s = map py_lower_char s"

definition py_rstrip :: "'a list \<Rightarrow> 'a list \<Rightarrow> 'a list" where
  \<comment> \<open>\<open>s.rstrip(chars)\<close>: drop the longest suffix made of characters of \<open>chars\<close>.\<close>
  "py_rstrip chars s = rev (dropWhile (\<lambda>c. c \<in> set chars) (rev s))"

definition py_split1 :: "char \<Rightarrow> string \<Rightarrow> string list" where
  \<comment> \<open>\<open>s.split(sep, 1)\<close> for a separator of one character.\<close>
  "py_split1 sep s =
     (if sep \<in> set s
      then [takeWhile (\<lambda>c. c \<noteq> sep) s, tl (dropWhile (\<lambda>c. c \<noteq> sep) s)]
      else [s])"

fun join :: "string \<Rightarrow> string list \<Rightarrow> string" where
  "join sep [] = []"
| "join sep [x] = x"
| "join sep (x # y # ys) = x @ sep @ join sep (y # ys)"

definition digit_char :: "nat \<Rightarrow> char" where
  "digit_char d = ''0123456789abcdef'' ! (d mod 16)"

function digits :: "nat \<Rightarrow> string" where
  "digits n = (if n < 10 then [digit_char n] else digits (n div 10) @ [digit_char (n mod 10)])"
  by pat_completeness auto
termination
  by (relation "measure id") auto

declare digits.simps [simp del]

definition py_str_int :: "int \<Rightarrow> string" where
  "py_str_int i = (if i < 0 then CHR ''-'' # digits (nat (- i)) else digits (nat i))"

definition hex2 :: "nat \<Rightarrow> string" where
  "hex2 n = [digit_char (n div 16 mod 16), digit_char (n mod 16)]"

definition repr_quote :: "string \<Rightarrow> char" where
  \<comment> \<open>Python quotes with \<open>'\<close> unless the text has a \<open>'\<close> and no \<open>"\<close>.\<close>
  "repr_quote s = (if CHR 0x27 \<in> set s \<and> CHR 0x22 \<notin> set s then CHR 0x22 else CHR 0x27)"

definition repr_char :: "bool \<Rightarrow> char \<Rightarrow> char \<Rightarrow> string" where
  \<comment> \<open>One character inside \<open>repr\<close>; \<open>is_bytes\<close> selects the rule of \<open>bytes\<close>, which
      escapes every byte from 0x7f on.\<close>
  "repr_char is_bytes quote c =
     (let n = (of_char c :: nat)
      in if c = quote \<or> c = CHR 0x5C then [CHR 0x5C, c]
         else if n = 9 then [CHR 0x5C, CHR ''t'']
         else if n = 10 then [CHR 0x5C, CHR ''n'']
         else if n = 13 then [CHR 0x5C, CHR ''r'']
         else if n < 32 \<or> n = 127 then [CHR 0x5C, CHR ''x''] @ hex2 n
         else if n < 127 then [c]
         else if is_bytes \<or> \<not> py_isprintable c then [CHR 0x5C, CHR ''x''] @ hex2 n
         else [c])"

definition py_repr_str :: "string \<Rightarrow> string" where
  "py_repr_str s =
     (let q = repr_quote s in [q] @ concat (map (repr_char False q) s) @ [q])"

definition bytes_repr :: "bytes \<Rightarrow> string" where
  \<comment> \<open>\<open>str(data)\<close> of a \<open>bytes\<close> object: \<open>b'...'\<close>.\<close>
  "bytes_repr data =
     (let s = map (\<lambda>b. char_of (unat b)) data; q = repr_quote s
      in [CHR ''b'', q] @ concat (map (repr_char True q) s) @ [q])"

subsection \<open>The UTF-8 codec in its replacing mode\<close>

text \<open>
  \<open>data.decode('utf-8', errors='replace')\<close>, as CPython decodes: bytes are read from the
  left; a well-formed sequence of one to four bytes gives its code point; otherwise the
  bytes up to the first one that cannot continue the sequence (at least one byte, and all
  remaining bytes when the data ends inside a sequence) give one U+FFFD, and decoding
  goes on behind them. Overlong forms, surrogates and code points above U+10FFFF are
  refused at the second byte. \<open>utf8_step b0 rest\<close> reads one such unit from
  \<open>b0 # rest\<close> and returns its code point (\<open>None\<close> for an error) and the number of
  bytes it takes. With \<open>errors='replace'\<close> the call raises no decoding error.
\<close>

type_synonym codepoints = "nat list"

definition is_continuation :: "nat \<Rightarrow> bool" where
  "is_continuation b = (0x80 \<le> b \<and> b < 0xC0)"

definition utf8_step :: "nat \<Rightarrow> nat list \<Rightarrow> nat option \<times> nat" where
  "utf8_step b0 rest =
     (if b0 < 0x80 then (Some b0, 1)
      else if b0 < 0xC2 then (None, 1)
      else if b0 < 0xE0 then
        (case rest of
           [] \<Rightarrow> (None, 1)
         | b1 # _ \<Rightarrow>
             if is_continuation b1 then (Some ((b0 - 0xC0) * 64 + (b1 - 0x80)), 2)
             else (None, 1))
      else if b0 < 0xF0 then
        (case rest of
           [] \<Rightarrow> (None, 1)
         | b1 # rest1 \<Rightarrow>
             if \<not> is_continuation b1 \<or> (b0 = 0xE0 \<and> b1 < 0xA0) \<or> (b0 = 0xED \<and> 0xA0 \<le> b1)
             then (None, 1)
             else
               (case rest1 of
                  [] \<Rightarrow> (None, 2)
                | b2 # _ \<Rightarrow>
                    if is_continuation b2
                    then (Some ((b0 - 0xE0) * 4096 + (b1 - 0x80) * 64 + (b2 - 0x80)), 3)
                    else (None, 2)))
      else if b0 < 0xF5 then
        (case rest of
           [] \<Rightarrow> (None, 1)
         | b1 # rest1 \<Rightarrow>
             if \<not> is_continuation b1 \<or> (b0 = 0xF0 \<and> b1 < 0x90) \<or> (b0 = 0xF4 \<and> 0x90 \<le> b1)
             then (None, 1)
             else
               (case rest1 of
                  [] \<Rightarrow> (None, 2)
                | b2 # rest2 \<Rightarrow>
                    if \<not> is_continuation b2 then (None, 2)
                    else
                      (case rest2 of
                         [] \<Rightarrow> (None, 3)
                       | b3 # _ \<Rightarrow>
                           if is_continuation b3
                           then (Some ((b0 - 0xF0) * 262144 + (b1 - 0x80) * 4096
                                         + (b2 - 0x80) * 64 + (b3 - 0x80)), 4)
                           else (None, 3))))
      else (None, 1))"

fun utf8_units :: "nat list \<Rightarrow> nat option list" where
  "utf8_units [] = []"
| "utf8_units (b # bs) =
     (case utf8_step b bs of (u, n) \<Rightarrow> u # utf8_units (drop (n - 1) bs))"

definition utf8_replace :: "nat list \<Rightarrow> codepoints" where
  "utf8_replace bs = map (\<lambda>u. case u of Some c \<Rightarrow> c | None \<Rightarrow> 0xFFFD) (utf8_units bs)"

definition decode_utf8_replace :: "bytes \<Rightarrow> exc + codepoints" where
  "decode_utf8_replace data = Inr (utf8_replace (map unat data))"

subsection \<open>Element trees and JSON values\<close>

text \<open>
  What \<open>ET.fromstring\<close> returns: an element with its tag (\<open>{uri}local\<close> when it is in
  a namespace), its direct text (\<open>None\<close> when the element has none) and its child
  elements in document order.
\<close>

datatype element = Element (elem_tag: string) (elem_text: "string option")
  (elem_children: "element list")

text \<open>
  What \<open>json.loads\<close> returns. A float is kept abstract (type \<open>'f\<close>); the bridge only
  ever prints one, through a \<open>repr\<close> taken as a parameter. An object is a \<open>dict\<close>: its
  items in insertion order, no key twice. \<open>str\<close> and \<open>repr\<close> are taken to succeed on
  every value \<open>json.loads\<close> returns.
\<close>

datatype 'f json =
    JNull
  | JBool bool
  | JInt int
  | JFloat 'f
  | JStr string
  | JArr "'f json list"
  | JObj "(string \<times> 'f json) list"

fun py_repr :: "('f \<Rightarrow> string) \<Rightarrow> 'f json \<Rightarrow> string" where
  "py_repr fr JNull = ''None''"
| "py_repr fr (JBool b) = (if b then ''True'' else ''False'')"
| "py_repr fr (JInt i) = py_str_int i"
| "py_repr fr (JFloat x) = fr x"
| "py_repr fr (JStr s) = py_repr_str s"
| "py_repr fr (JArr xs) = ''['' @ join '', '' (map (py_repr fr) xs) @ '']''"
| "py_repr fr (JObj kvs) =
     ''{'' @ join '', '' (map (\<lambda>kv. py_repr_str (fst kv) @ '': '' @ py_repr fr (snd kv)) kvs)
       @ ''}''"

fun py_str :: "('f \<Rightarrow> string) \<Rightarrow> 'f json \<Rightarrow> string" where
  "py_str fr (JStr s) = s"
| "py_str fr v = py_repr fr v"

section \<open>The environment of the bridge\<close>

text \<open>
  The calls into Python's libraries are parameters of the model: the XML parser
  (\<open>ET.fromstring\<close>), the JSON parser (\<open>json.loads\<close>), \<open>repr\<close> of a float and
  \<open>requests.post\<close> with its \<open>timeout\<close>. Each returns \<open>Inr\<close> its value or \<open>Inl\<close> the
  exception it raised; the HTTP call answers with the response's status code.
\<close>

record 'f stdlib =
  ET_fromstring :: "string \<Rightarrow> exc + element"
  json_loads :: "string \<Rightarrow> exc + 'f json"
  float_repr :: "'f \<Rightarrow> string"
  requests_post :: "string \<Rightarrow> pydict \<Rightarrow> nat \<Rightarrow> exc + int"

text \<open>The module's settings, read once from \<open>config.ini\<close>.\<close>

record config =
  WEB_URL :: string
  AUTH_TOKEN :: string

text \<open>
  What the bridge does to the outside: the messages handed to \<open>log\<close> (oldest first,
  without the time stamp that \<open>log\<close> puts in front), the HTTP requests issued (URL, form
  fields, timeout in seconds) and the payloads handed to a background thread running
  \<open>post_form\<close>.
\<close>

record world =
  log_lines :: "string list"
  posts :: "(string \<times> pydict \<times> nat) list"
  threads :: "pydict list"

definition log :: "string \<Rightarrow> world \<Rightarrow> world" where
  "log msg w = w\<lparr>log_lines := log_lines w @ [msg]\<rparr>"

section \<open>The bridge\<close>

definition to_bool :: "string \<Rightarrow> bool" where
  "to_bool s = (py_lower (py_strip s) \<in> set [''1'', ''true'', ''yes'', ''on''])"

definition store_child :: "element \<Rightarrow> pydict \<Rightarrow> pydict" where
  \<comment> \<open>The body of the loop over the root's children.\<close>
  "store_child child out =
     (let tag = elem_tag child;
          tag = (if CHR ''}'' \<in> set tag then py_split1 (CHR ''}'') tag ! 1 else tag)
      in AList.update tag (case elem_text child of Some t \<Rightarrow> t | None \<Rightarrow> []) out)"

definition parse_n1mm_xml :: "'f stdlib \<Rightarrow> string \<Rightarrow> world \<Rightarrow> (exc + pydict) \<times> world" where
  "parse_n1mm_xml L data w =
     (case ET_fromstring L data of
        Inr root \<Rightarrow> (Inr (fold store_child (elem_children root) []), w)
      | Inl e \<Rightarrow> (Inr [], log (''XML parse error: '' @ exc_str e) w))"

definition try_parse_json :: "'f stdlib \<Rightarrow> string \<Rightarrow> exc + pydict" where
  "try_parse_json L data =
     (case json_loads L data of
        Inr (JObj items) \<Rightarrow>
          Inr (fold (\<lambda>kv. AList.update (fst kv) (py_str (float_repr L) (snd kv))) items [])
      | Inr _ \<Rightarrow> Inr []
      | Inl e \<Rightarrow> Inr [])"

definition post_form :: "'f stdlib \<Rightarrow> config \<Rightarrow> pydict \<Rightarrow> world \<Rightarrow> (exc + unit) \<times> world" where
  "post_form L cfg payload w =
     (let w1 = w\<lparr>posts := posts w @ [(WEB_URL cfg, payload, 10)]\<rparr>
      in case requests_post L (WEB_URL cfg) payload 10 of
           Inr status_code \<Rightarrow>
             (Inr (), log (''POST '' @ WEB_URL cfg @ '' -> '' @ py_str_int status_code) w1)
         | Inl e \<Rightarrow> (Inr (), log (''POST error: '' @ exc_str e) w1))"

definition store_items :: "pydict \<Rightarrow> pydict \<Rightarrow> pydict" where
  \<comment> \<open>\<open>for k, v in items.items(): payload[k] = v\<close>\<close>
  "store_items items payload = fold (\<lambda>kv. AList.update (fst kv) (snd kv)) items payload"

definition start_thread :: "pydict \<Rightarrow> world \<Rightarrow> (exc + unit) \<times> world" where
  \<comment> \<open>A daemon thread is started on \<open>post_form(payload)\<close>; the caller does not wait.\<close>
  "start_thread payload w = (Inr (), w\<lparr>threads := threads w @ [payload]\<rparr>)"

definition addr_str :: "string \<times> int \<Rightarrow> string" where
  \<comment> \<open>\<open>str(addr)\<close> of the sender's \<open>(host, port)\<close> tuple.\<close>
  "addr_str addr = ''('' @ py_repr_str (fst addr) @ '', '' @ py_str_int (snd addr) @ '')''"

definition short_preview :: "string \<Rightarrow> string" where
  "short_preview data = (if length data < 300 then data else take 300 data @ ''...'')"

definition handle_packet ::
  "'f stdlib \<Rightarrow> config \<Rightarrow> string \<Rightarrow> string \<Rightarrow> string \<times> int \<Rightarrow> world \<Rightarrow> (exc + unit) \<times> world" where
  \<comment> \<open>In the \<open>N1MM\<close> branch the source stores \<open>v if v is not None else ''\<close>; the
      values of \<open>parsed\<close> are strings, never \<open>None\<close>, so this is \<open>v\<close>.\<close>
  "handle_packet L cfg source data addr w =
     (let short = short_preview data;
          w1 = log (source @ '' from '' @ addr_str addr @ '' -> '' @ short) w;
          payload = [(''source'', source), (''data_raw'', data), (''token'', AUTH_TOKEN cfg)]
      in if source = ''N1MM'' then
           (case parse_n1mm_xml L data w1 of
              (Inl e, w2) \<Rightarrow> (Inl e, w2)
            | (Inr parsed, w2) \<Rightarrow> start_thread (store_items parsed payload) w2)
         else
           (case try_parse_json L data of
              Inl e \<Rightarrow> (Inl e, w1)
            | Inr j \<Rightarrow>
                if j \<noteq> [] then start_thread (store_items j payload) w1
                else
                  (case parse_n1mm_xml L data w1 of
                     (Inl e, w2) \<Rightarrow> (Inl e, w2)
                   | (Inr parsed, w2) \<Rightarrow> start_thread (store_items parsed payload) w2)))"

definition decode_datagram :: "bytes \<Rightarrow> exc + codepoints" where
  \<comment> \<open>The listener's best-effort decoding of one received datagram; the text of
      \<open>str(data)\<close> is ASCII and is given by its code points.\<close>
  "decode_datagram data =
     (case decode_utf8_replace data of
        Inr t \<Rightarrow> Inr (py_rstrip [0] t)
      | Inl e \<Rightarrow> Inr (map of_char (bytes_repr data)))"

section \<open>The specification's wording, for comparison with the code\<close>

text \<open>
  Case-insensitive comparison as the specification words it for the four accepted
  spellings: two strings are equal ignoring case when they have the same length and agree
  position by position up to the case of an ASCII letter.
\<close>

definition same_letter :: "char \<Rightarrow> char \<Rightarrow> bool" where
  "same_letter a b =
     (let m = (of_char a :: nat); n = (of_char b :: nat)
      in a = b \<or> (65 \<le> m \<and> m \<le> 90 \<and> n = m + 32) \<or> (65 \<le> n \<and> n \<le> 90 \<and> m = n + 32))"

definition equal_ignoring_case :: "string \<Rightarrow> string \<Rightarrow> bool" where
  "equal_ignoring_case s t = list_all2 same_letter s t"

definition to_bool_spec :: "string \<Rightarrow> bool" where
  "to_bool_spec s =
     (equal_ignoring_case s ''1'' \<or> equal_ignoring_case s ''true'' \<or>
      equal_ignoring_case s ''yes'' \<or> equal_ignoring_case s ''on'')"

text \<open>
  UTF-8 as the standard defines it: the code points a text may hold (no surrogate, none
  above U+10FFFF) and their encoding in one to four bytes. A byte sequence is valid UTF-8
  when it is the encoding of such a text.
\<close>

definition is_scalar :: "nat \<Rightarrow> bool" where
  "is_scalar c = (c < 0xD800 \<or> (0xE000 \<le> c \<and> c < 0x110000))"

definition utf8_encode_cp :: "nat \<Rightarrow> nat list" where
  "utf8_encode_cp c =
     (if c < 0x80 then [c]
      else if c < 0x800 then [0xC0 + c div 64, 0x80 + c mod 64]
      else if c < 0x10000 then [0xE0 + c div 4096, 0x80 + c div 64 mod 64, 0x80 + c mod 64]
      else [0xF0 + c div 262144, 0x80 + c div 4096 mod 64, 0x80 + c div 64 mod 64,
            0x80 + c mod 64])"

definition utf8_encode :: "codepoints \<Rightarrow> nat list" where
  "utf8_encode cps = concat (map utf8_encode_cp cps)"

text \<open>
  Reading a decimal numeral: \<open>is_decimal_of t i\<close> says that \<open>t\<close> is the decimal
  numeral of the integer \<open>i\<close> as Python prints it, a minus sign for a negative number
  and then digits with no leading zero.
\<close>

definition is_digit :: "char \<Rightarrow> bool" where
  "is_digit c = (let n = (of_char c :: nat) in 48 \<le> n \<and> n \<le> 57)"

definition decimal_value :: "string \<Rightarrow> nat" where
  "decimal_value ds = foldl (\<lambda>a c. 10 * a + (of_char c - 48)) 0 ds"

definition canonical_decimal :: "string \<Rightarrow> bool" where
  "canonical_decimal ds = (ds \<noteq> [] \<and> list_all is_digit ds \<and> (hd ds \<noteq> CHR ''0'' \<or> ds = ''0''))"

definition is_decimal_of :: "string \<Rightarrow> int \<Rightarrow> bool" where
  "is_decimal_of t i =
     (if i < 0
      then (case t of [] \<Rightarrow> False
            | c # ds \<Rightarrow> c = CHR ''-'' \<and> canonical_decimal ds \<and> int (decimal_value ds) = - i)
      else canonical_decimal t \<and> int (decimal_value t) = i)"

definition printable_ascii :: "char \<Rightarrow> bool" where
  "printable_ascii c = (let n = (of_char c :: nat) in 32 \<le> n \<and> n \<le> 126)"

text \<open>
  The field key and field value the specification assigns to a direct child of the root:
  the tag without its namespace prefix (everything up to and including the first
  \<open>}\<close>), and the direct text or the empty string.
\<close>

definition child_key :: "element \<Rightarrow> string" where
  "child_key c =
     (if CHR ''}'' \<in> set (elem_tag c)
      then tl (dropWhile (\<lambda>x. x \<noteq> CHR ''}'') (elem_tag c)) else elem_tag c)"

definition child_value :: "element \<Rightarrow> string" where
  "child_value c = (case elem_text c of Some t \<Rightarrow> t | None \<Rightarrow> [])"

text \<open>
  The FieldMap of one packet, following the branches of \<open>handle_packet\<close>: the fields of
  XML-first extraction, the fields of the JSON attempt, and the choice between them.
\<close>

definition xml_fields :: "'f stdlib \<Rightarrow> string \<Rightarrow> pydict" where
  "xml_fields L data =
     (case ET_fromstring L data of
        Inr root \<Rightarrow> fold store_child (elem_children root) []
      | Inl e \<Rightarrow> [])"

definition json_fields :: "'f stdlib \<Rightarrow> string \<Rightarrow> pydict" where
  "json_fields L data = (case try_parse_json L data of Inr j \<Rightarrow> j | Inl e \<Rightarrow> [])"

definition extracted_fields :: "'f stdlib \<Rightarrow> string \<Rightarrow> string \<Rightarrow> pydict" where
  "extracted_fields L source data =
     (if source = ''N1MM'' then xml_fields L data
      else if json_fields L data \<noteq> [] then json_fields L data
      else xml_fields L data)"

definition base_payload :: "config \<Rightarrow> string \<Rightarrow> string \<Rightarrow> pydict" where
  "base_payload cfg source data =
     [(''source'', source), (''data_raw'', data), (''token'', AUTH_TOKEN cfg)]"

definition packet_log_line :: "string \<Rightarrow> string \<Rightarrow> string \<times> int \<Rightarrow> string" where
  "packet_log_line source data addr =
     source @ '' from '' @ addr_str addr @ '' -> '' @ short_preview data"

section \<open>Sample packets\<close>

text \<open>
  The settings a run without \<open>config.ini\<close> falls back to, the world before anything
  happened, and the answers of Python's libraries on the sample packets used in the
  examples below: each table lists, text by text, what the parser returns or the message
  of the error it raises. A text outside a table gets an exception that says so; no
  example evaluates a table there. The HTTP endpoint of the samples answers 503 at the
  default URL and lets a request to \<open>/slow\<close> run into the read timeout.
\<close>

definition default_config :: config where
  "default_config = \<lparr>WEB_URL = ''http://example.com/post'', AUTH_TOKEN = ''ABC123''\<rparr>"

definition world0 :: world where
  "world0 = \<lparr>log_lines = [], posts = [], threads = []\<rparr>"

definition json_null_text :: string where
  \<comment> \<open>The text \<open>{"a": null}\<close>.\<close>
  "json_null_text = ''{'' @ [CHR 0x22] @ ''a'' @ [CHR 0x22] @ '': null}''"

definition json_nested_text :: string where
  \<comment> \<open>The text \<open>{"ok": true, "xs": [1, 2], "o": {"a": 1}}\<close>.\<close>
  "json_nested_text =
     ''{'' @ [CHR 0x22] @ ''ok'' @ [CHR 0x22] @ '': true, '' @ [CHR 0x22] @ ''xs'' @ [CHR 0x22]
       @ '': [1, 2], '' @ [CHR 0x22] @ ''o'' @ [CHR 0x22] @ '': {'' @ [CHR 0x22] @ ''a''
       @ [CHR 0x22] @ '': 1}}''"

definition json_freq_text :: string where
  \<comment> \<open>The text \<open>{"freq": 14074000, "mode": "FT8"}\<close>.\<close>
  "json_freq_text =
     ''{'' @ [CHR 0x22] @ ''freq'' @ [CHR 0x22] @ '': 14074000, '' @ [CHR 0x22] @ ''mode''
       @ [CHR 0x22] @ '': '' @ [CHR 0x22] @ ''FT8'' @ [CHR 0x22] @ ''}''"

definition xml_ns_text :: string where
  \<comment> \<open>The text \<open><r xmlns="u"><a><b>1</b></a><c/></r>\<close>.\<close>
  "xml_ns_text = ''<r xmlns='' @ [CHR 0x22] @ ''u'' @ [CHR 0x22] @ ''><a><b>1</b></a><c/></r>''"

definition read_timeout_text :: string where
  \<comment> \<open>The text
      \<open>HTTPConnectionPool(host='example.com', port=80): Read timed out. (read timeout=10)\<close>.\<close>
  "read_timeout_text =
     ''HTTPConnectionPool(host='' @ [CHR 0x27] @ ''example.com'' @ [CHR 0x27]
       @ '', port=80): Read timed out. (read timeout=10)''"

definition sample_fromstring :: "string \<Rightarrow> exc + element" where
  "sample_fromstring s =
     (if s = ''<contactinfo><call>K1ABC</call><band>20m</band></contactinfo>'' then
        Inr (Element ''contactinfo'' None
               [Element ''call'' (Some ''K1ABC'') [], Element ''band'' (Some ''20m'') []])
      else if s = ''<r><a>1</a><a>2</a></r>'' then
        Inr (Element ''r'' None [Element ''a'' (Some ''1'') [], Element ''a'' (Some ''2'') []])
      else if s = ''<r><token>x</token></r>'' then
        Inr (Element ''r'' None [Element ''token'' (Some ''x'') []])
      else if s = xml_ns_text then
        Inr (Element ''{u}r'' None
               [Element ''{u}a'' None [Element ''{u}b'' (Some ''1'') []], Element ''{u}c'' None []])
      else if s = ''<r>'' then Inl (Exception ''no element found: line 1, column 3'')
      else if s = '''' then Inl (Exception ''no element found: line 1, column 0'')
      else if s = ''[1, 2]'' then Inl (Exception ''syntax error: line 1, column 0'')
      else if s = ''{}'' \<or> s = json_null_text \<or> s = json_nested_text \<or> s = json_freq_text then
        Inl (Exception ''not well-formed (invalid token): line 1, column 0'')
      else Inl (Exception ''outside the sample table''))"

definition sample_loads :: "string \<Rightarrow> exc + unit json" where
  "sample_loads s =
     (if s = ''{}'' then Inr (JObj [])
      else if s = json_null_text then Inr (JObj [(''a'', JNull)])
      else if s = json_nested_text then
        Inr (JObj [(''ok'', JBool True), (''xs'', JArr [JInt 1, JInt 2]),
                   (''o'', JObj [(''a'', JInt 1)])])
      else if s = json_freq_text then
        Inr (JObj [(''freq'', JInt 14074000), (''mode'', JStr ''FT8'')])
      else if s = ''[1, 2]'' then Inr (JArr [JInt 1, JInt 2])
      else if s = ''<r>'' \<or> s = '''' \<or> s = xml_ns_text
           \<or> s = ''<contactinfo><call>K1ABC</call><band>20m</band></contactinfo>''
           \<or> s = ''<r><a>1</a><a>2</a></r>'' \<or> s = ''<r><token>x</token></r>'' then
        Inl (Exception ''Expecting value: line 1 column 1 (char 0)'')
      else Inl (Exception ''outside the sample table''))"

definition sample_post :: "string \<Rightarrow> pydict \<Rightarrow> nat \<Rightarrow> exc + int" where
  "sample_post url payload timeout =
     (if url = ''http://example.com/post'' then Inr 503
      else if url = ''http://example.com/slow'' then Inl (Exception read_timeout_text)
      else Inl (Exception ''outside the sample table''))"

definition sample_lib :: "unit stdlib" where
  "sample_lib =
     \<lparr>ET_fromstring = sample_fromstring, json_loads = sample_loads,
      float_repr = (\<lambda>x. ''0.0''), requests_post = sample_post\<rparr>"

lemmas sample_texts = json_null_text_def json_nested_text_def json_freq_text_def xml_ns_text_def

section \<open>Facts about dictionaries\<close>

lemma update_fresh: "k \<notin> fst ` set al \<Longrightarrow> AList.update k v al = al @ [(k, v)]"
  by (induction al) auto

lemma map_of_rev_distinct: "distinct (map fst xs) \<Longrightarrow> map_of (rev xs) = map_of xs"
proof (induction xs)
  case Nil
  show ?case by simp
next
  case (Cons x xs)
  then have IH: "map_of (rev xs) = map_of xs" and fresh: "fst x \<notin> fst ` set xs" by auto
  have "map_of xs (fst x) = None"
    using fresh by (simp add: map_of_eq_None_iff)
  then show ?case
    by (cases x) (auto simp: IH fun_eq_iff map_add_def split: option.splits)
qed

text \<open>
  A loop that stores one entry per element of \<open>xs\<close> into a dictionary: a later element
  wins over an earlier one with the same key, the keys are those already there plus
  those stored, no key appears twice, and distinct fresh keys are appended in order.
\<close>

lemma fold_update_map_of:
  "map_of (fold (\<lambda>x. AList.update (f x) (g x)) xs acc) =
     map_of acc ++ map_of (rev (map (\<lambda>x. (f x, g x)) xs))"
proof (induction xs arbitrary: acc)
  case Nil
  show ?case by simp
next
  case (Cons x xs)
  have "map_of (AList.update (f x) (g x) acc) = (map_of acc)(f x \<mapsto> g x)"
    by (rule update_conv')
  with Cons.IH [of "AList.update (f x) (g x) acc"] show ?case
    by (simp add: map_add_upd_left fun_eq_iff map_add_def split: option.splits)
qed

lemma fold_update_keys:
  "fst ` set (fold (\<lambda>x. AList.update (f x) (g x)) xs acc) = fst ` set acc \<union> f ` set xs"
proof (induction xs arbitrary: acc)
  case Nil
  show ?case by simp
next
  case (Cons x xs)
  have "fst ` set (AList.update (f x) (g x) acc) = insert (f x) (fst ` set acc)"
    by (simp add: dom_update)
  with Cons.IH [of "AList.update (f x) (g x) acc"] show ?case by auto
qed

lemma fold_update_distinct:
  "distinct (map fst acc) \<Longrightarrow> distinct (map fst (fold (\<lambda>x. AList.update (f x) (g x)) xs acc))"
  by (induction xs arbitrary: acc) (simp_all add: distinct_update)

lemma fold_update_append:
  "distinct (map f xs) \<Longrightarrow> f ` set xs \<inter> fst ` set acc = {} \<Longrightarrow>
   fold (\<lambda>x. AList.update (f x) (g x)) xs acc = acc @ map (\<lambda>x. (f x, g x)) xs"
proof (induction xs arbitrary: acc)
  case Nil
  show ?case by simp
next
  case (Cons x xs)
  from Cons.prems have fresh: "f x \<notin> fst ` set acc" by auto
  have step: "AList.update (f x) (g x) acc = acc @ [(f x, g x)]"
    using fresh by (rule update_fresh)
  from Cons.prems have "distinct (map f xs)" and "f ` set xs \<inter> fst ` set (acc @ [(f x, g x)]) = {}"
    by auto
  from Cons.IH [OF this] step show ?case by simp
qed

lemma store_items_map_of:
  "distinct (map fst items) \<Longrightarrow> map_of (store_items items p) = map_of p ++ map_of items"
proof -
  assume d: "distinct (map fst items)"
  have "map (\<lambda>x. (fst x, snd x)) items = items" by simp
  moreover have "map_of (rev items) = map_of items"
    using d by (simp add: map_of_rev_distinct)
  ultimately show ?thesis
    unfolding store_items_def using fold_update_map_of [of fst snd items p] by simp
qed

lemma store_items_keys: "fst ` set (store_items items p) = fst ` set p \<union> fst ` set items"
  unfolding store_items_def by (rule fold_update_keys)

section \<open>Facts about the extraction and the packet handler\<close>

lemma store_child_eq: "store_child c out = AList.update (child_key c) (child_value c) out"
  by (simp add: store_child_def child_key_def child_value_def py_split1_def Let_def)

lemma fold_store_child:
  "fold store_child cs acc = fold (\<lambda>c. AList.update (child_key c) (child_value c)) cs acc"
  by (simp add: store_child_eq [abs_def])

lemma parse_n1mm_xml_eq:
  "parse_n1mm_xml L data w =
     (Inr (xml_fields L data),
      case ET_fromstring L data of
        Inr root \<Rightarrow> w
      | Inl e \<Rightarrow> log (''XML parse error: '' @ exc_str e) w)"
  by (simp add: parse_n1mm_xml_def xml_fields_def split: sum.splits)

lemma try_parse_json_eq: "try_parse_json L data = Inr (json_fields L data)"
  by (simp add: json_fields_def try_parse_json_def split: sum.splits json.splits)

lemma handle_packet_eq:
  "handle_packet L cfg source data addr w =
     start_thread (store_items (extracted_fields L source data) (base_payload cfg source data))
       (if source = ''N1MM'' \<or> json_fields L data = []
        then snd (parse_n1mm_xml L data (log (packet_log_line source data addr) w))
        else log (packet_log_line source data addr) w)"
  by (simp add: handle_packet_def Let_def parse_n1mm_xml_eq try_parse_json_eq
        extracted_fields_def base_payload_def packet_log_line_def)

lemma log_lines_parse:
  "\<exists>rest. log_lines (snd (parse_n1mm_xml L data w)) = log_lines w @ rest"
  by (simp add: parse_n1mm_xml_eq log_def split: sum.splits)

lemma xml_fields_distinct: "distinct (map fst (xml_fields L data))"
  by (simp add: xml_fields_def fold_store_child fold_update_distinct split: sum.splits)

lemma json_fields_distinct: "distinct (map fst (json_fields L data))"
  by (simp add: json_fields_def try_parse_json_def fold_update_distinct
        split: sum.splits json.splits)

lemma extracted_fields_distinct: "distinct (map fst (extracted_fields L source data))"
  by (simp add: extracted_fields_def xml_fields_distinct json_fields_distinct)

section \<open>Boolean parsing of configuration values\<close>

lemma of_char_lower:
  "(of_char (py_lower_char c) :: nat) =
     (let n = (of_char c :: nat)
      in if (65 \<le> n \<and> n \<le> 90) \<or> (192 \<le> n \<and> n \<le> 222 \<and> n \<noteq> 215)
         then n + 32 else n)"
  by (simp add: py_lower_char_def Let_def)

text \<open>
  Only an ASCII letter and its capital are lowered to that letter, and only a digit to
  itself: no other character of the alphabet lowers into the accepted spellings.
\<close>

lemma lower_char_eq_iff:
  assumes "(of_char l :: nat) \<in> {48..57} \<union> {97..122}"
  shows "py_lower_char c = l \<longleftrightarrow> same_letter c l"
proof -
  have "py_lower_char c = l \<longleftrightarrow> (of_char (py_lower_char c) :: nat) = of_char l"
    by simp
  also have "\<dots> \<longleftrightarrow> (of_char c :: nat) = of_char l \<or>
      (65 \<le> (of_char c :: nat) \<and> (of_char c :: nat) \<le> 90 \<and> (of_char c :: nat) + 32 = of_char l)"
    using assms unfolding of_char_lower Let_def by auto
  also have "\<dots> \<longleftrightarrow> same_letter c l"
    using assms unfolding same_letter_def Let_def by auto
  finally show ?thesis .
qed

lemma lower_eq_iff:
  assumes "\<forall>l \<in> set t. (of_char l :: nat) \<in> {48..57} \<union> {97..122}"
  shows "py_lower w = t \<longleftrightarrow> equal_ignoring_case w t"
  using assms
proof (induction w arbitrary: t)
  case Nil
  then show ?case by (auto simp: py_lower_def equal_ignoring_case_def)
next
  case (Cons c w)
  show ?case
  proof (cases t)
    case Nil
    then show ?thesis by (simp add: py_lower_def equal_ignoring_case_def)
  next
    case (Cons l t')
    with Cons.prems have l: "(of_char l :: nat) \<in> {48..57} \<union> {97..122}"
      and t': "\<forall>l \<in> set t'. (of_char l :: nat) \<in> {48..57} \<union> {97..122}" by auto
    from Cons.IH [OF t'] have "py_lower w = t' \<longleftrightarrow> equal_ignoring_case w t'" .
    with lower_char_eq_iff [OF l, of c] Cons show ?thesis
      by (simp add: py_lower_def equal_ignoring_case_def)
  qed
qed

text \<open>
  C8, as stated: \<open>to_bool s\<close> holds exactly when \<open>s\<close> itself, compared
  case-insensitively, is one of \<open>1\<close>, \<open>true\<close>, \<open>yes\<close>, \<open>on\<close>. The code strips white
  space first, so a value with a leading blank is accepted although it is none of the four
  spellings.
\<close>

theorem to_bool_leading_blank_counterexample:
  "to_bool '' true'' \<and> \<not> to_bool_spec '' true''"
  by (simp add: to_bool_def to_bool_spec_def equal_ignoring_case_def same_letter_def
        py_strip_def py_isspace_def py_lower_def py_lower_char_def)

text \<open>
  C8, amended: for every configuration string \<open>s\<close>, \<open>to_bool s\<close> holds exactly when
  \<open>s\<close> with its leading and trailing white space removed, compared case-insensitively,
  is one of \<open>1\<close>, \<open>true\<close>, \<open>yes\<close>, \<open>on\<close>; it is false for every other string.
\<close>

theorem to_bool_strip_ignoring_case: "to_bool s = to_bool_spec (py_strip s)"
proof -
  have "py_lower w = ''1'' \<longleftrightarrow> equal_ignoring_case w ''1''" for w
    by (rule lower_eq_iff) simp
  moreover have "py_lower w = ''true'' \<longleftrightarrow> equal_ignoring_case w ''true''" for w
    by (rule lower_eq_iff) simp
  moreover have "py_lower w = ''yes'' \<longleftrightarrow> equal_ignoring_case w ''yes''" for w
    by (rule lower_eq_iff) simp
  moreover have "py_lower w = ''on'' \<longleftrightarrow> equal_ignoring_case w ''on''" for w
    by (rule lower_eq_iff) simp
  ultimately show ?thesis
    unfolding to_bool_def to_bool_spec_def by simp
qed

theorem to_bool_strip_ignoring_case_witness:
  "to_bool '' YeS '' \<and> to_bool_spec (py_strip '' YeS '') \<and> \<not> to_bool ''y e s''"
  using to_bool_strip_ignoring_case [of "'' YeS ''"] to_bool_strip_ignoring_case [of "''y e s''"]
  by (simp add: to_bool_spec_def equal_ignoring_case_def same_letter_def py_strip_def
        py_isspace_def)

section \<open>The logged preview\<close>

text \<open>
  C10: the first line \<open>handle_packet\<close> logs ends with the preview of the decoded text;
  the preview is the whole text when it is shorter than 300 characters and its first 300
  characters followed by \<open>...\<close> otherwise, so a text of exactly 300 characters gets the
  marker although nothing was cut.
\<close>

theorem preview_marks_from_300_characters:
  "(\<exists>rest. log_lines (snd (handle_packet L cfg source data addr w)) =
      log_lines w @ [source @ '' from '' @ addr_str addr @ '' -> '' @ short_preview data] @ rest) \<and>
   (length data < 300 \<longrightarrow> short_preview data = data) \<and>
   (\<not> length data < 300 \<longrightarrow> short_preview data = take 300 data @ ''...'') \<and>
   (length data = 300 \<longrightarrow> short_preview data = data @ ''...'')"
proof -
  obtain rest where
    "log_lines (snd (parse_n1mm_xml L data (log (packet_log_line source data addr) w))) =
       log_lines (log (packet_log_line source data addr) w) @ rest"
    using log_lines_parse by blast
  then have "\<exists>rest. log_lines (snd (handle_packet L cfg source data addr w)) =
      log_lines w @ [packet_log_line source data addr] @ rest"
    by (simp add: handle_packet_eq start_thread_def log_def)
  then show ?thesis
    by (simp add: packet_log_line_def short_preview_def)
qed

theorem preview_marks_from_300_characters_witness:
  "length (replicate 300 (CHR ''a'')) = 300 \<and>
   short_preview (replicate 300 (CHR ''a'')) = replicate 300 (CHR ''a'') @ ''...'' \<and>
   length ''CQ K1ABC'' < 300 \<and> short_preview ''CQ K1ABC'' = ''CQ K1ABC''"
  using preview_marks_from_300_characters [of sample_lib default_config "''JTDX''"
      "replicate 300 (CHR ''a'')" "(''127.0.0.1'', 2237)" world0]
    preview_marks_from_300_characters [of sample_lib default_config "''JTDX''"
      "''CQ K1ABC''" "(''127.0.0.1'', 2237)" world0]
  by simp

section \<open>Decoding a datagram\<close>

lemma eq_char_of_iff: "c = char_of (n::nat) \<longleftrightarrow> of_char c = take_bit 8 n"
  using char_of_eq_iff [of n c] by auto

lemma step1: "c < 0x80 \<Longrightarrow> utf8_step c rest = (Some c, 1)"
  by (simp add: utf8_step_def)

lemma step2:
  "2 \<le> q \<Longrightarrow> q < 32 \<Longrightarrow> r < 64 \<Longrightarrow>
   utf8_step (0xC0 + q) ((0x80 + r) # rest) = (Some (q * 64 + r), 2)"
  by (simp add: utf8_step_def is_continuation_def)

lemma step3:
  "p < 16 \<Longrightarrow> q < 64 \<Longrightarrow> r < 64 \<Longrightarrow> (p = 0 \<longrightarrow> 32 \<le> q) \<Longrightarrow> (p = 13 \<longrightarrow> q < 32) \<Longrightarrow>
   utf8_step (0xE0 + p) ((0x80 + q) # (0x80 + r) # rest) = (Some (p * 4096 + q * 64 + r), 3)"
  by (auto simp add: utf8_step_def is_continuation_def)

lemma step4:
  "o' < 5 \<Longrightarrow> p < 64 \<Longrightarrow> q < 64 \<Longrightarrow> r < 64 \<Longrightarrow> (o' = 0 \<longrightarrow> 16 \<le> p) \<Longrightarrow> (o' = 4 \<longrightarrow> p < 16) \<Longrightarrow>
   utf8_step (0xF0 + o') ((0x80 + p) # (0x80 + q) # (0x80 + r) # rest)
     = (Some (o' * 262144 + p * 4096 + q * 64 + r), 4)"
  by (auto simp add: utf8_step_def is_continuation_def)




lemma div4096: "(c::nat) div 4096 = c div 64 div 64"
  using div_mult2_eq [of c 64 64] by simp

lemma div262144: "(c::nat) div 262144 = c div 64 div 64 div 64"
  using div_mult2_eq [of c 4096 64] by (simp add: div4096)

lemma step_encode_cp:
  assumes "is_scalar c"
  shows "utf8_step (hd (utf8_encode_cp c)) (tl (utf8_encode_cp c) @ rest)
           = (Some c, length (utf8_encode_cp c))"
proof -
  define r where "r = c mod 64"
  define x where "x = c div 64"
  define q where "q = x mod 64"
  define y where "y = x div 64"
  define p where "p = y mod 64"
  define z where "z = y div 64"
  have c: "c = x * 64 + r" and r: "r < 64"
    unfolding r_def x_def by simp_all
  have x: "x = y * 64 + q" and q: "q < 64"
    unfolding q_def y_def by simp_all
  have y: "y = z * 64 + p" and p: "p < 64"
    unfolding p_def z_def by simp_all
  consider "c < 0x80" | "0x80 \<le> c" "c < 0x800" | "0x800 \<le> c" "c < 0x10000" | "0x10000 \<le> c"
    by linarith
  then show ?thesis
  proof cases
    case 1
    then show ?thesis by (simp add: utf8_encode_cp_def step1)
  next
    case 2
    have enc: "utf8_encode_cp c = [0xC0 + x, 0x80 + r]"
      using 2 by (simp add: utf8_encode_cp_def x_def r_def)
    have "2 \<le> x" "x < 32" using 2 c r by linarith+
    then have "utf8_step (0xC0 + x) ((0x80 + r) # rest) = (Some (x * 64 + r), 2)"
      using r by (rule step2)
    then show ?thesis using enc c by simp
  next
    case 3
    have enc: "utf8_encode_cp c = [0xE0 + y, 0x80 + q, 0x80 + r]"
      using 3 by (simp add: utf8_encode_cp_def div4096 x_def y_def q_def r_def)
    have y16: "y < 16" using 3 c x r q by linarith
    have lo: "y = 0 \<longrightarrow> 32 \<le> q" using 3 c x r q by auto
    have hi: "y = 13 \<longrightarrow> q < 32"
      using 3 assms c x r q unfolding is_scalar_def by auto
    have "utf8_step (0xE0 + y) ((0x80 + q) # (0x80 + r) # rest) = (Some (y * 4096 + q * 64 + r), 3)"
      using y16 q r lo hi by (rule step3)
    moreover have "y * 4096 + q * 64 + r = c" using c x by simp
    ultimately show ?thesis using enc by simp
  next
    case 4
    have enc: "utf8_encode_cp c = [0xF0 + z, 0x80 + p, 0x80 + q, 0x80 + r]"
      using 4 by (simp add: utf8_encode_cp_def div4096 div262144 x_def y_def z_def p_def q_def r_def)
    have c110: "c < 0x110000" using 4 assms unfolding is_scalar_def by auto
    have z5: "z < 5" using c110 c x y r q p by linarith
    have lo: "z = 0 \<longrightarrow> 16 \<le> p" using 4 c x y r q p by auto
    have hi: "z = 4 \<longrightarrow> p < 16" using c110 c x y r q p by auto
    have "utf8_step (0xF0 + z) ((0x80 + p) # (0x80 + q) # (0x80 + r) # rest)
            = (Some (z * 262144 + p * 4096 + q * 64 + r), 4)"
      using z5 p q r lo hi by (rule step4)
    moreover have "z * 262144 + p * 4096 + q * 64 + r = c" using c x y by simp
    ultimately show ?thesis using enc by simp
  qed
qed

lemma encode_cp_nonempty: "utf8_encode_cp c \<noteq> []"
  by (simp add: utf8_encode_cp_def)

lemma units_encode:
  "list_all is_scalar cps \<Longrightarrow> utf8_units (utf8_encode cps @ rest) = map Some cps @ utf8_units rest"
proof (induction cps)
  case Nil
  show ?case by (simp add: utf8_encode_def)
next
  case (Cons c cps)
  then have c: "is_scalar c" and IH: "utf8_units (utf8_encode cps @ rest) = map Some cps @ utf8_units rest"
    by simp_all
  obtain b bs where enc: "utf8_encode_cp c = b # bs"
    using encode_cp_nonempty [of c] by (cases "utf8_encode_cp c") auto
  have "utf8_step b (bs @ utf8_encode cps @ rest) = (Some c, Suc (length bs))"
    using step_encode_cp [OF c, of "utf8_encode cps @ rest"] enc by simp
  then have "utf8_units (b # bs @ utf8_encode cps @ rest) = Some c # utf8_units (utf8_encode cps @ rest)"
    by simp
  then show ?case using enc IH by (simp add: utf8_encode_def)
qed

lemma digit64: "r < 64 \<Longrightarrow> (x * 64 + r) div 64 = (x::nat) \<and> (x * 64 + r) mod 64 = r"
  by simp

lemma encode2:
  assumes "2 \<le> q" "q < 32" "r < 64"
  shows "utf8_encode_cp (q * 64 + r) = [0xC0 + q, 0x80 + r] \<and> is_scalar (q * 64 + r)"
proof -
  have "0x80 \<le> q * 64 + r" "q * 64 + r < 0x800" using assms by linarith+
  then show ?thesis using digit64 [OF assms(3), of q] by (simp add: utf8_encode_cp_def is_scalar_def)
qed

lemma encode3:
  assumes "p < 16" "q < 64" "r < 64" "p = 0 \<longrightarrow> 32 \<le> q" "p = 13 \<longrightarrow> q < 32"
  shows "utf8_encode_cp (p * 4096 + q * 64 + r) = [0xE0 + p, 0x80 + q, 0x80 + r] \<and>
         is_scalar (p * 4096 + q * 64 + r)"
proof -
  let ?c = "p * 4096 + q * 64 + r"
  have c: "?c = (p * 64 + q) * 64 + r" by simp
  have lo: "0x800 \<le> ?c" using assms by (cases "p = 0") auto
  have hi: "?c < 0x10000" using assms by linarith
  have d1: "?c div 64 = p * 64 + q" "?c mod 64 = r"
    unfolding c using digit64 [OF assms(3)] by blast+
  have d2: "(p * 64 + q) div 64 = p" "(p * 64 + q) mod 64 = q"
    using digit64 [OF assms(2)] by blast+
  have d3: "?c div 4096 = p" unfolding div4096 d1 d2 ..
  have sc: "is_scalar ?c"
  proof -
    have "?c < 0xD800 \<or> 0xE000 \<le> ?c"
      using assms by (cases "p < 13"; cases "p = 13") auto
    then show ?thesis using hi unfolding is_scalar_def by auto
  qed
  have "utf8_encode_cp ?c = [0xE0 + ?c div 4096, 0x80 + ?c div 64 mod 64, 0x80 + ?c mod 64]"
    using lo hi unfolding utf8_encode_cp_def by auto
  then show ?thesis using sc by (simp only: d1 d2 d3)
qed

lemma encode4:
  assumes "z < 5" "p < 64" "q < 64" "r < 64" "z = 0 \<longrightarrow> 16 \<le> p" "z = 4 \<longrightarrow> p < 16"
  shows "utf8_encode_cp (z * 262144 + p * 4096 + q * 64 + r)
           = [0xF0 + z, 0x80 + p, 0x80 + q, 0x80 + r] \<and>
         is_scalar (z * 262144 + p * 4096 + q * 64 + r)"
proof -
  let ?c = "z * 262144 + p * 4096 + q * 64 + r"
  have c: "?c = ((z * 64 + p) * 64 + q) * 64 + r" by simp
  have lo: "0x10000 \<le> ?c" using assms by (cases "z = 0") auto
  have hi: "?c < 0x110000" using assms by (cases "z = 4") auto
  have d1: "?c div 64 = (z * 64 + p) * 64 + q" "?c mod 64 = r"
    unfolding c using digit64 [OF assms(4)] by blast+
  have d2: "((z * 64 + p) * 64 + q) div 64 = z * 64 + p" "((z * 64 + p) * 64 + q) mod 64 = q"
    using digit64 [OF assms(3)] by blast+
  have d3: "(z * 64 + p) div 64 = z" "(z * 64 + p) mod 64 = p"
    using digit64 [OF assms(2)] by blast+
  have d4: "?c div 4096 = z * 64 + p" unfolding div4096 d1 d2 ..
  have d5: "?c div 262144 = z" unfolding div262144 d1 d2 d3 ..
  have sc: "is_scalar ?c" using lo hi unfolding is_scalar_def by auto
  have "utf8_encode_cp ?c =
      [0xF0 + ?c div 262144, 0x80 + ?c div 4096 mod 64, 0x80 + ?c div 64 mod 64, 0x80 + ?c mod 64]"
    using lo unfolding utf8_encode_cp_def by auto
  then show ?thesis using sc by (simp only: d1 d2 d3 d4 d5)
qed

lemma step_decoded:
  assumes "utf8_step b bs = (Some c, n)"
  shows "is_scalar c \<and> 1 \<le> n \<and> n - 1 \<le> length bs \<and> utf8_encode_cp c = b # take (n - 1) bs"
proof -
  consider "b < 0x80" | "0x80 \<le> b" "b < 0xC2" | "0xC2 \<le> b" "b < 0xE0"
    | "0xE0 \<le> b" "b < 0xF0" | "0xF0 \<le> b" "b < 0xF5" | "0xF5 \<le> b"
    by linarith
  then show ?thesis
  proof cases
    case 1
    with assms show ?thesis by (auto simp: utf8_step_def utf8_encode_cp_def is_scalar_def)
  next
    case 2
    with assms show ?thesis by (simp add: utf8_step_def)
  next
    case 3
    with assms obtain b1 rest where bs: "bs = b1 # rest" and k: "is_continuation b1"
      and c: "c = (b - 0xC0) * 64 + (b1 - 0x80)" and n: "n = 2"
      by (auto simp: utf8_step_def split: list.splits if_splits)
    have "2 \<le> b - 0xC0" "b - 0xC0 < 32" "b1 - 0x80 < 64"
      using 3 k unfolding is_continuation_def by linarith+
    from encode2 [OF this] have "utf8_encode_cp c = [0xC0 + (b - 0xC0), 0x80 + (b1 - 0x80)]"
      and "is_scalar c" unfolding c by blast+
    moreover have "0xC0 + (b - 0xC0) = b" "0x80 + (b1 - 0x80) = b1"
      using 3 k unfolding is_continuation_def by linarith+
    ultimately show ?thesis using bs n by simp
  next
    case 4
    with assms obtain b1 b2 rest where bs: "bs = b1 # b2 # rest"
      and k1: "is_continuation b1" and k2: "is_continuation b2"
      and lo: "b = 0xE0 \<longrightarrow> 0xA0 \<le> b1" and hi: "b = 0xED \<longrightarrow> b1 < 0xA0"
      and c: "c = (b - 0xE0) * 4096 + (b1 - 0x80) * 64 + (b2 - 0x80)" and n: "n = 3"
      by (auto simp: utf8_step_def split: list.splits if_splits)
    have "b - 0xE0 < 16" "b1 - 0x80 < 64" "b2 - 0x80 < 64"
      "b - 0xE0 = 0 \<longrightarrow> 32 \<le> b1 - 0x80" "b - 0xE0 = 13 \<longrightarrow> b1 - 0x80 < 32"
      using 4 k1 k2 lo hi unfolding is_continuation_def by auto
    from encode3 [OF this]
    have "utf8_encode_cp c = [0xE0 + (b - 0xE0), 0x80 + (b1 - 0x80), 0x80 + (b2 - 0x80)]"
      and "is_scalar c" unfolding c by blast+
    moreover have "0xE0 + (b - 0xE0) = b" "0x80 + (b1 - 0x80) = b1" "0x80 + (b2 - 0x80) = b2"
      using 4 k1 k2 unfolding is_continuation_def by linarith+
    ultimately show ?thesis using bs n by simp
  next
    case 5
    with assms obtain b1 b2 b3 rest where bs: "bs = b1 # b2 # b3 # rest"
      and k1: "is_continuation b1" and k2: "is_continuation b2" and k3: "is_continuation b3"
      and lo: "b = 0xF0 \<longrightarrow> 0x90 \<le> b1" and hi: "b = 0xF4 \<longrightarrow> b1 < 0x90"
      and c: "c = (b - 0xF0) * 262144 + (b1 - 0x80) * 4096 + (b2 - 0x80) * 64 + (b3 - 0x80)"
      and n: "n = 4"
      by (auto simp: utf8_step_def split: list.splits if_splits)
    have "b - 0xF0 < 5" "b1 - 0x80 < 64" "b2 - 0x80 < 64" "b3 - 0x80 < 64"
      "b - 0xF0 = 0 \<longrightarrow> 16 \<le> b1 - 0x80" "b - 0xF0 = 4 \<longrightarrow> b1 - 0x80 < 16"
      using 5 k1 k2 k3 lo hi unfolding is_continuation_def by auto
    from encode4 [OF this]
    have "utf8_encode_cp c =
        [0xF0 + (b - 0xF0), 0x80 + (b1 - 0x80), 0x80 + (b2 - 0x80), 0x80 + (b3 - 0x80)]"
      and "is_scalar c" unfolding c by blast+
    moreover have "0xF0 + (b - 0xF0) = b" "0x80 + (b1 - 0x80) = b1" "0x80 + (b2 - 0x80) = b2"
      "0x80 + (b3 - 0x80) = b3"
      using 5 k1 k2 k3 unfolding is_continuation_def by linarith+
    ultimately show ?thesis using bs n by simp
  next
    case 6
    with assms show ?thesis by (simp add: utf8_step_def)
  qed
qed

lemma units_decoded:
  "None \<notin> set (utf8_units bs) \<Longrightarrow>
   list_all is_scalar (map the (utf8_units bs)) \<and> utf8_encode (map the (utf8_units bs)) = bs"
proof (induction bs rule: utf8_units.induct)
  case 1
  show ?case by (simp add: utf8_encode_def)
next
  case (2 b bs)
  obtain u n where st: "utf8_step b bs = (u, n)" by (cases "utf8_step b bs")
  with "2.prems" obtain c where u: "u = Some c" by (cases u) auto
  from st u have dec: "is_scalar c" "1 \<le> n" "n - 1 \<le> length bs"
    "utf8_encode_cp c = b # take (n - 1) bs"
    using step_decoded [of b bs c n] by blast+
  have rest: "None \<notin> set (utf8_units (drop (n - 1) bs))"
    using "2.prems" st by simp
  from "2.IH" [OF st [symmetric] rest]
  have IH: "list_all is_scalar (map the (utf8_units (drop (n - 1) bs)))"
    "utf8_encode (map the (utf8_units (drop (n - 1) bs))) = drop (n - 1) bs" by blast+
  have "utf8_encode (map the (utf8_units (b # bs))) = (b # take (n - 1) bs) @ drop (n - 1) bs"
    using st u dec(4) IH(2) by (simp add: utf8_encode_def)
  then show ?case using st u dec(1) IH(1) by simp
qed

lemma units_scalar: "\<forall>c. Some c \<in> set (utf8_units bs) \<longrightarrow> is_scalar c"
proof (induction bs rule: utf8_units.induct)
  case 1
  show ?case by simp
next
  case (2 b bs)
  obtain u n where st: "utf8_step b bs = (u, n)" by (cases "utf8_step b bs")
  have "\<forall>c. u = Some c \<longrightarrow> is_scalar c"
    using st step_decoded [of b bs _ n] by blast
  then show ?case using "2.IH" [OF st [symmetric]] st by auto
qed

lemma rstrip_no_trailing: "py_rstrip [c] t = [] \<or> last (py_rstrip [c] t) \<noteq> c"
proof (cases "dropWhile (\<lambda>x. x \<in> set [c]) (rev t)")
  case Nil
  then show ?thesis by (simp add: py_rstrip_def)
next
  case (Cons y ys)
  then have "\<not> (hd (dropWhile (\<lambda>x. x \<in> set [c]) (rev t)) \<in> set [c])"
    using hd_dropWhile [of "\<lambda>x. x \<in> set [c]" "rev t"] by simp
  with Cons show ?thesis by (simp add: py_rstrip_def)
qed

lemma takeWhile_eq_replicate: "takeWhile (\<lambda>x. x = c) xs = replicate (length (takeWhile (\<lambda>x. x = c) xs)) c"
  by (induction xs) auto

lemma rstrip_decomp: "\<exists>n. t = py_rstrip [c] t @ replicate n c"
proof -
  let ?P = "\<lambda>x. x = c"
  define n where "n = length (takeWhile ?P (rev t))"
  have tw: "takeWhile ?P (rev t) = replicate n c"
    unfolding n_def by (rule takeWhile_eq_replicate)
  have "rev t = takeWhile ?P (rev t) @ dropWhile ?P (rev t)" by simp
  then have "rev t = replicate n c @ dropWhile ?P (rev t)"
    by (simp only: tw)
  then have "rev (rev t) = rev (replicate n c @ dropWhile ?P (rev t))"
    by (rule arg_cong)
  then have "t = rev (dropWhile ?P (rev t)) @ replicate n c"
    by simp
  then have "t = py_rstrip [c] t @ replicate n c"
    by (simp add: py_rstrip_def)
  then show ?thesis ..
qed

lemma replace_scalar: "list_all is_scalar (utf8_replace bs)"
proof -
  have "is_scalar 0xFFFD" by (simp add: is_scalar_def)
  then show ?thesis
    using units_scalar [of bs]
    by (auto simp: utf8_replace_def list_all_iff split: option.splits)
qed

lemma replace_encode:
  "list_all is_scalar cps \<Longrightarrow> utf8_replace (utf8_encode cps @ rest) = cps @ utf8_replace rest"
  by (simp add: utf8_replace_def units_encode comp_def)

lemma error_iff_invalid:
  "None \<in> set (utf8_units bs) \<longleftrightarrow> \<not> (\<exists>cps. list_all is_scalar cps \<and> bs = utf8_encode cps)"
proof
  assume err: "None \<in> set (utf8_units bs)"
  show "\<not> (\<exists>cps. list_all is_scalar cps \<and> bs = utf8_encode cps)"
  proof
    assume "\<exists>cps. list_all is_scalar cps \<and> bs = utf8_encode cps"
    then obtain cps where "list_all is_scalar cps" and "bs = utf8_encode cps" by blast
    then have "utf8_units bs = map Some cps"
      using units_encode [of cps "[]"] by simp
    with err show False by auto
  qed
next
  assume "\<not> (\<exists>cps. list_all is_scalar cps \<and> bs = utf8_encode cps)"
  then show "None \<in> set (utf8_units bs)"
    using units_decoded [of bs] by metis
qed

lemma replace_invalid_start:
  "(0x80 \<le> b \<and> b < 0xC2) \<or> 0xF5 \<le> b \<Longrightarrow> utf8_replace (b # rest) = 0xFFFD # utf8_replace rest"
  by (auto simp: utf8_replace_def utf8_step_def)

lemma utf8_replace_examples:
  "utf8_replace [0xF0, 0x9F, 0x98] = [0xFFFD]"
  "utf8_replace [0xF0, 0x9F, 0x98, 0x41] = [0xFFFD, 0x41]"
  "utf8_replace [0xF0, 0x9F, 0x41] = [0xFFFD, 0x41]"
  "utf8_replace [0xF0, 0x41] = [0xFFFD, 0x41]"
  "utf8_replace [0xE2, 0x82] = [0xFFFD]"
  "utf8_replace [0xE2, 0x41] = [0xFFFD, 0x41]"
  "utf8_replace [0xC3] = [0xFFFD]"
  "utf8_replace [0xC3, 0x41] = [0xFFFD, 0x41]"
  "utf8_replace [0xE0, 0x80] = [0xFFFD, 0xFFFD]"
  "utf8_replace [0xC0, 0x80] = [0xFFFD, 0xFFFD]"
  "utf8_replace [0xF4, 0x90, 0x80, 0x80] = [0xFFFD, 0xFFFD, 0xFFFD, 0xFFFD]"
  "utf8_replace [0xF5, 0x41] = [0xFFFD, 0x41]"
  "utf8_replace [0xED, 0x9F, 0xBF] = [0xD7FF]"
  "utf8_replace [0xEE, 0x80, 0x80] = [0xE000]"
  "utf8_replace [0xF4, 0x8F, 0xBF, 0xBF] = [0x10FFFF]"
  "utf8_replace [0xF0, 0x90, 0x80, 0x80] = [0x10000]"
  "utf8_replace [0xDF, 0xBF] = [0x7FF]"
  "utf8_replace [0xC2, 0x80] = [0x80]"
  "utf8_replace [0xE0, 0xA0, 0x80] = [0x800]"
  by (simp_all add: utf8_replace_def utf8_step_def is_continuation_def)

text \<open>
  The fallback of the listener, \<open>str(data)\<close> of the bytes, is a text that ends in its
  closing quote, so it has no trailing NUL either.
\<close>

lemma bytes_repr_last: "bytes_repr data \<noteq> [] \<and> last (bytes_repr data) \<noteq> CHR 0x00"
  by (simp add: bytes_repr_def Let_def repr_quote_def)

lemma bytes_repr_examples:
  "bytes_repr [] = [CHR ''b'', CHR 0x27, CHR 0x27]"
  "bytes_repr [0x00] = [CHR ''b'', CHR 0x27, CHR 0x5C, CHR ''x'', CHR ''0'', CHR ''0'', CHR 0x27]"
  "bytes_repr [0x41, 0x27, 0xFF, 0x0A, 0x5C]
     = [CHR ''b'', CHR 0x22, CHR ''A'', CHR 0x27, CHR 0x5C, CHR ''x'', CHR ''f'', CHR ''f'',
        CHR 0x5C, CHR ''n'', CHR 0x5C, CHR 0x5C, CHR 0x22]"
  "bytes_repr [0x27, 0x22] = [CHR ''b'', CHR 0x27, CHR 0x5C, CHR 0x27, CHR 0x22, CHR 0x27]"
  by (simp_all add: bytes_repr_def repr_quote_def repr_char_def hex2_def digit_char_def Let_def
      char_of_eq_iff eq_char_of_iff)

text \<open>
  C5: for every byte sequence, decoding returns a text and never an exception. The text
  is what the replacing UTF-8 decoder yields, without its trailing NULs, and has none
  left. It holds code points of Unicode only; valid UTF-8 decodes to the text it encodes;
  the decoder meets an error exactly when the bytes are not valid UTF-8, and then the
  text holds U+FFFD in place of each invalid sequence: a valid prefix is kept as it is and
  a byte that cannot start a sequence becomes one U+FFFD.
\<close>

theorem decode_datagram_replaces_invalid_utf8:
  "\<exists>s. decode_datagram data = Inr s \<and>
       (s = [] \<or> last s \<noteq> 0) \<and>
       (\<exists>n. utf8_replace (map unat data) = s @ replicate n 0) \<and>
       list_all is_scalar s \<and>
       (\<forall>cps. list_all is_scalar cps \<and> map unat data = utf8_encode cps \<longrightarrow>
          utf8_replace (map unat data) = cps \<and> s = py_rstrip [0] cps) \<and>
       (None \<in> set (utf8_units (map unat data)) \<longleftrightarrow>
          \<not> (\<exists>cps. list_all is_scalar cps \<and> map unat data = utf8_encode cps)) \<and>
       (None \<in> set (utf8_units (map unat data)) \<longrightarrow> 0xFFFD \<in> set s) \<and>
       (\<forall>cps rest. list_all is_scalar cps \<and> map unat data = utf8_encode cps @ rest \<longrightarrow>
          utf8_replace (map unat data) = cps @ utf8_replace rest) \<and>
       (\<forall>b rest. map unat data = b # rest \<and> ((0x80 \<le> b \<and> b < 0xC2) \<or> 0xF5 \<le> b) \<longrightarrow>
          utf8_replace (map unat data) = 0xFFFD # utf8_replace rest)"
proof -
  let ?bs = "map unat data"
  let ?t = "utf8_replace ?bs"
  let ?s = "py_rstrip [0] ?t"
  have 0: "decode_datagram data = Inr ?s"
    by (simp add: decode_datagram_def decode_utf8_replace_def)
  have 1: "?s = [] \<or> last ?s \<noteq> 0" by (rule rstrip_no_trailing)
  obtain n where n: "?t = ?s @ replicate n 0"
    using rstrip_decomp [of ?t 0] by blast
  then have 2: "\<exists>n. ?t = ?s @ replicate n 0" ..
  have "list_all is_scalar (?s @ replicate n 0)"
    using replace_scalar [of ?bs] by (simp only: n [symmetric])
  then have 3: "list_all is_scalar ?s" by simp
  have 4: "\<forall>cps. list_all is_scalar cps \<and> ?bs = utf8_encode cps \<longrightarrow>
      ?t = cps \<and> ?s = py_rstrip [0] cps"
  proof (intro allI impI)
    fix cps assume "list_all is_scalar cps \<and> ?bs = utf8_encode cps"
    then have "?t = cps"
      using replace_encode [of cps "[]"] by (simp add: utf8_replace_def)
    then show "?t = cps \<and> ?s = py_rstrip [0] cps" by simp
  qed
  have 5: "None \<in> set (utf8_units ?bs) \<longleftrightarrow>
      \<not> (\<exists>cps. list_all is_scalar cps \<and> ?bs = utf8_encode cps)"
    by (rule error_iff_invalid)
  have 6: "None \<in> set (utf8_units ?bs) \<longrightarrow> 0xFFFD \<in> set ?s"
  proof
    assume "None \<in> set (utf8_units ?bs)"
    then have "0xFFFD \<in> set ?t"
      by (force simp: utf8_replace_def)
    then have "0xFFFD \<in> set (?s @ replicate n 0)"
      by (simp only: n [symmetric])
    then show "0xFFFD \<in> set ?s" by auto
  qed
  have 7: "\<forall>cps rest. list_all is_scalar cps \<and> ?bs = utf8_encode cps @ rest \<longrightarrow>
      ?t = cps @ utf8_replace rest"
    using replace_encode by simp
  have 8: "\<forall>b rest. ?bs = b # rest \<and> ((0x80 \<le> b \<and> b < 0xC2) \<or> 0xF5 \<le> b) \<longrightarrow>
      ?t = 0xFFFD # utf8_replace rest"
    using replace_invalid_start by simp
  from 0 1 2 3 4 5 6 7 8 show ?thesis by blast
qed

theorem decode_datagram_replaces_invalid_utf8_witness:
  "decode_datagram [0x41, 0xE2, 0x82, 0x42, 0x00, 0x00] = Inr [0x41, 0xFFFD, 0x42] \<and>
   None \<in> set (utf8_units (map unat [0x41, 0xE2, 0x82, 0x42, 0x00, 0x00 :: 8 word])) \<and>
   decode_datagram [0xFF] = Inr [0xFFFD] \<and>
   decode_datagram [0xED, 0xA0, 0x80] = Inr [0xFFFD, 0xFFFD, 0xFFFD] \<and>
   map unat [0x4F, 0x4B, 0xC3, 0xA9, 0xE2, 0x82, 0xAC, 0xF0, 0x9F, 0x98, 0x80, 0x00 :: 8 word]
     = utf8_encode [0x4F, 0x4B, 0xE9, 0x20AC, 0x1F600, 0] \<and>
   decode_datagram [0x4F, 0x4B, 0xC3, 0xA9, 0xE2, 0x82, 0xAC, 0xF0, 0x9F, 0x98, 0x80, 0x00]
     = Inr [0x4F, 0x4B, 0xE9, 0x20AC, 0x1F600]"
  using decode_datagram_replaces_invalid_utf8 [of "[0x41, 0xE2, 0x82, 0x42, 0x00, 0x00]"]
  by (simp add: decode_datagram_def decode_utf8_replace_def utf8_replace_def utf8_step_def
      is_continuation_def py_rstrip_def utf8_encode_def utf8_encode_cp_def)

section \<open>The relay dispatcher\<close>

text \<open>
  C7: for every payload and every outcome of the HTTP POST, \<open>post_form\<close> returns
  normally; it issues exactly one request (URL, payload, timeout 10) and none again, and
  logs one line: the status code when the POST answered, whatever the status, and the
  error when it raised.
\<close>

theorem post_form_returns_after_one_request:
  "fst (post_form L cfg payload w) = Inr () \<and>
   posts (snd (post_form L cfg payload w)) = posts w @ [(WEB_URL cfg, payload, 10)] \<and>
   threads (snd (post_form L cfg payload w)) = threads w \<and>
   (\<forall>status_code. requests_post L (WEB_URL cfg) payload 10 = Inr status_code \<longrightarrow>
      log_lines (snd (post_form L cfg payload w)) =
        log_lines w @ [''POST '' @ WEB_URL cfg @ '' -> '' @ py_str_int status_code]) \<and>
   (\<forall>e. requests_post L (WEB_URL cfg) payload 10 = Inl e \<longrightarrow>
      log_lines (snd (post_form L cfg payload w)) = log_lines w @ [''POST error: '' @ exc_str e])"
proof (cases "requests_post L (WEB_URL cfg) payload 10")
  case (Inl e)
  then show ?thesis by (simp add: post_form_def Let_def log_def)
next
  case (Inr status_code)
  then show ?thesis by (simp add: post_form_def Let_def log_def)
qed

theorem post_form_returns_after_one_request_witness:
  "requests_post sample_lib (WEB_URL default_config) [(''source'', ''N1MM'')] 10 = Inr 503 \<and>
   post_form sample_lib default_config [(''source'', ''N1MM'')] world0 =
     (Inr (), \<lparr>log_lines = [''POST http://example.com/post -> 503''],
               posts = [(''http://example.com/post'', [(''source'', ''N1MM'')], 10)],
               threads = []\<rparr>) \<and>
   requests_post sample_lib ''http://example.com/slow'' [] 10 = Inl (Exception read_timeout_text) \<and>
   log_lines (snd (post_form sample_lib \<lparr>WEB_URL = ''http://example.com/slow'', AUTH_TOKEN = ''t''\<rparr> [] world0))
     = [''POST error: '' @ read_timeout_text]"
  using post_form_returns_after_one_request [of sample_lib default_config "[(''source'', ''N1MM'')]" world0]
    post_form_returns_after_one_request [of sample_lib "\<lparr>WEB_URL = ''http://example.com/slow'', AUTH_TOKEN = ''t''\<rparr>" "[]" world0]
  by (simp add: post_form_def sample_lib_def sample_post_def default_config_def world0_def log_def
       py_str_int_def digits.simps digit_char_def Let_def)

section \<open>The dispatched payload\<close>

lemma base_payload_lookup:
  "map_of (base_payload cfg source data) ''source'' = Some source"
  "map_of (base_payload cfg source data) ''data_raw'' = Some data"
  "map_of (base_payload cfg source data) ''token'' = Some (AUTH_TOKEN cfg)"
  "fst ` set (base_payload cfg source data) = {''source'', ''data_raw'', ''token''}"
  "distinct (map fst (base_payload cfg source data))"
  by (simp_all add: base_payload_def)

lemma store_items_distinct:
  "distinct (map fst p) \<Longrightarrow> distinct (map fst (store_items items p))"
  unfolding store_items_def by (rule fold_update_distinct)

lemma store_items_override:
  assumes "distinct (map fst items)"
  shows "map_of items k = Some v \<Longrightarrow> map_of (store_items items p) k = Some v"
    and "k \<notin> fst ` set items \<Longrightarrow> map_of (store_items items p) k = map_of p k"
proof -
  show "map_of items k = Some v \<Longrightarrow> map_of (store_items items p) k = Some v"
    by (simp add: store_items_map_of [OF assms] map_add_def)
  show "map_of (store_items items p) k = map_of p k" if "k \<notin> fst ` set items"
  proof -
    from that have "map_of items k = None" by (simp add: map_of_eq_None_iff)
    then show ?thesis by (simp add: store_items_map_of [OF assms] map_add_def)
  qed
qed

lemma handle_packet_threads:
  "fst (handle_packet L cfg source data addr w) = Inr () \<and>
   threads (snd (handle_packet L cfg source data addr w)) =
     threads w @ [store_items (extracted_fields L source data) (base_payload cfg source data)]"
  by (simp add: handle_packet_eq start_thread_def parse_n1mm_xml_eq log_def split: sum.splits)

text \<open>
  C1, as stated: \<open>token\<close> holds the configured auth token also when an extracted
  field is itself named \<open>token\<close>. The extracted fields are stored after the three
  fixed keys, so a child element \<open>token\<close> replaces the configured token.
\<close>

theorem extracted_token_replaces_auth_token_counterexample:
  "threads (snd (handle_packet sample_lib default_config ''N1MM'' ''<r><token>x</token></r>''
       (''127.0.0.1'', 12060) world0))
     = [[(''source'', ''N1MM''), (''data_raw'', ''<r><token>x</token></r>''), (''token'', ''x'')]] \<and>
   AUTH_TOKEN default_config = ''ABC123'' \<and> ''x'' \<noteq> AUTH_TOKEN default_config"
  by (simp add: handle_packet_def parse_n1mm_xml_def sample_lib_def sample_texts sample_fromstring_def
      default_config_def world0_def store_items_def store_child_def start_thread_def log_def
      Let_def)

text \<open>
  C1, amended: for every received packet the handler returns normally and hands exactly
  one payload to a dispatch thread; its keys are the three fixed keys and the names of the
  fields extracted from that packet's text, none twice; every extracted field holds its
  extracted value; and \<open>source\<close>, \<open>data_raw\<close>, \<open>token\<close> hold the source tag, the
  whole decoded text and the configured token whenever no extracted field has that name
  (an extracted field of that name replaces the fixed value). Nothing of the payload
  depends on the world before the packet.
\<close>

theorem payload_is_base_overridden_by_fields:
  "\<exists>p. fst (handle_packet L cfg source data addr w) = Inr () \<and>
       threads (snd (handle_packet L cfg source data addr w)) = threads w @ [p] \<and>
       fst ` set p = {''source'', ''data_raw'', ''token''} \<union> fst ` set (extracted_fields L source data) \<and>
       distinct (map fst p) \<and>
       (\<forall>k v. map_of (extracted_fields L source data) k = Some v \<longrightarrow> map_of p k = Some v) \<and>
       (''source'' \<notin> fst ` set (extracted_fields L source data) \<longrightarrow> map_of p ''source'' = Some source) \<and>
       (''data_raw'' \<notin> fst ` set (extracted_fields L source data) \<longrightarrow> map_of p ''data_raw'' = Some data) \<and>
       (''token'' \<notin> fst ` set (extracted_fields L source data) \<longrightarrow>
          map_of p ''token'' = Some (AUTH_TOKEN cfg))"
proof -
  let ?E = "extracted_fields L source data"
  let ?b = "base_payload cfg source data"
  let ?p = "store_items ?E ?b"
  have d: "distinct (map fst ?E)" by (rule extracted_fields_distinct)
  have 1: "fst (handle_packet L cfg source data addr w) = Inr ()"
    and 2: "threads (snd (handle_packet L cfg source data addr w)) = threads w @ [?p]"
    using handle_packet_threads by blast+
  have 3: "fst ` set ?p = {''source'', ''data_raw'', ''token''} \<union> fst ` set ?E"
    by (simp only: store_items_keys base_payload_lookup)
  have 4: "distinct (map fst ?p)"
    by (rule store_items_distinct) (rule base_payload_lookup)
  have 5: "\<forall>k v. map_of ?E k = Some v \<longrightarrow> map_of ?p k = Some v"
    using store_items_override(1) [OF d] by blast
  have 6: "''source'' \<notin> fst ` set ?E \<longrightarrow> map_of ?p ''source'' = Some source"
    using store_items_override(2) [OF d, of "''source''" ?b] by (simp only: base_payload_lookup) simp
  have 7: "''data_raw'' \<notin> fst ` set ?E \<longrightarrow> map_of ?p ''data_raw'' = Some data"
    using store_items_override(2) [OF d, of "''data_raw''" ?b] by (simp only: base_payload_lookup) simp
  have 8: "''token'' \<notin> fst ` set ?E \<longrightarrow> map_of ?p ''token'' = Some (AUTH_TOKEN cfg)"
    using store_items_override(2) [OF d, of "''token''" ?b] by (simp only: base_payload_lookup) simp
  from 1 2 3 4 5 6 7 8 show ?thesis by blast
qed

theorem payload_is_base_overridden_by_fields_witness:
  "extracted_fields sample_lib ''N1MM''
       ''<contactinfo><call>K1ABC</call><band>20m</band></contactinfo>''
     = [(''call'', ''K1ABC''), (''band'', ''20m'')] \<and>
   threads (snd (handle_packet sample_lib default_config ''N1MM''
       ''<contactinfo><call>K1ABC</call><band>20m</band></contactinfo>'' (''127.0.0.1'', 12060) world0))
     = [[(''source'', ''N1MM''),
         (''data_raw'', ''<contactinfo><call>K1ABC</call><band>20m</band></contactinfo>''),
         (''token'', ''ABC123''), (''call'', ''K1ABC''), (''band'', ''20m'')]]"
  using payload_is_base_overridden_by_fields [of sample_lib default_config "''N1MM''"
      "''<contactinfo><call>K1ABC</call><band>20m</band></contactinfo>''" "(''127.0.0.1'', 12060)" world0]
  by (simp add: handle_packet_def parse_n1mm_xml_def sample_lib_def sample_texts sample_fromstring_def
      default_config_def world0_def store_items_def store_child_def start_thread_def log_def
      extracted_fields_def xml_fields_def Let_def)

text \<open>
  C6, as stated: every text that is not well-formed XML is dispatched carrying only the
  three base keys. A text from the digital-mode decoder that is a non-empty JSON object
  is not well-formed XML either, and it is dispatched with the object's fields as well.
\<close>

theorem json_object_is_not_xml_counterexample:
  "ET_fromstring sample_lib json_freq_text =
     Inl (Exception ''not well-formed (invalid token): line 1, column 0'') \<and>
   threads (snd (handle_packet sample_lib default_config ''JTDX'' json_freq_text
       (''127.0.0.1'', 2237) world0))
     = [[(''source'', ''JTDX''), (''data_raw'', json_freq_text), (''token'', ''ABC123''),
         (''freq'', ''14074000''), (''mode'', ''FT8'')]] \<and>
   length [(''source'', ''JTDX''), (''data_raw'', json_freq_text), (''token'', ''ABC123''),
           (''freq'', ''14074000''), (''mode'', ''FT8'')] \<noteq> 3"
  by (simp add: handle_packet_def try_parse_json_def sample_lib_def sample_texts sample_loads_def
      sample_fromstring_def  default_config_def world0_def store_items_def start_thread_def log_def
      py_str_int_def digits.simps digit_char_def Let_def)

text \<open>
  C6, amended: when the parser rejects the text, \<open>parse_n1mm_xml\<close> returns the empty
  map normally, having logged the error, and the handler returns normally and hands the
  packet to a dispatch thread. The payload has exactly the three base keys whenever
  XML-first extraction is what the handler runs on the packet (source \<open>N1MM\<close>, or the
  JSON attempt gave no field); for another source whose JSON attempt gave fields, the
  payload is the three base keys with those fields stored after them, and the XML parser
  is not asked.
\<close>

theorem malformed_xml_dispatches_base_payload:
  "ET_fromstring L data = Inl e \<Longrightarrow>
   parse_n1mm_xml L data w = (Inr [], log (''XML parse error: '' @ exc_str e) w) \<and>
   fst (handle_packet L cfg source data addr w) = Inr () \<and>
   (\<exists>p. threads (snd (handle_packet L cfg source data addr w)) = threads w @ [p]) \<and>
   (source = ''N1MM'' \<or> try_parse_json L data = Inr [] \<longrightarrow>
      handle_packet L cfg source data addr w =
        (Inr (), w\<lparr>log_lines := log_lines w @
                     [packet_log_line source data addr, ''XML parse error: '' @ exc_str e],
                   threads := threads w @
                     [[(''source'', source), (''data_raw'', data), (''token'', AUTH_TOKEN cfg)]]\<rparr>)) \<and>
   (\<forall>j. source \<noteq> ''N1MM'' \<and> try_parse_json L data = Inr j \<and> j \<noteq> [] \<longrightarrow>
      handle_packet L cfg source data addr w =
        (Inr (), w\<lparr>log_lines := log_lines w @ [packet_log_line source data addr],
                   threads := threads w @
                     [store_items j
                        [(''source'', source), (''data_raw'', data), (''token'', AUTH_TOKEN cfg)]]\<rparr>))"
proof -
  assume bad: "ET_fromstring L data = Inl e"
  have 1: "parse_n1mm_xml L data w = (Inr [], log (''XML parse error: '' @ exc_str e) w)"
    using bad by (simp add: parse_n1mm_xml_def)
  have 2: "fst (handle_packet L cfg source data addr w) = Inr ()"
    and 3: "\<exists>p. threads (snd (handle_packet L cfg source data addr w)) = threads w @ [p]"
    using handle_packet_threads [of L cfg source data addr w] by blast+
  have 4: "source = ''N1MM'' \<or> try_parse_json L data = Inr [] \<longrightarrow>
      handle_packet L cfg source data addr w =
        (Inr (), w\<lparr>log_lines := log_lines w @
                     [packet_log_line source data addr, ''XML parse error: '' @ exc_str e],
                   threads := threads w @
                     [[(''source'', source), (''data_raw'', data), (''token'', AUTH_TOKEN cfg)]]\<rparr>)"
    using bad
    by (auto simp add: handle_packet_def parse_n1mm_xml_def Let_def store_items_def
        start_thread_def log_def packet_log_line_def)
  have 5: "\<forall>j. source \<noteq> ''N1MM'' \<and> try_parse_json L data = Inr j \<and> j \<noteq> [] \<longrightarrow>
      handle_packet L cfg source data addr w =
        (Inr (), w\<lparr>log_lines := log_lines w @ [packet_log_line source data addr],
                   threads := threads w @
                     [store_items j
                        [(''source'', source), (''data_raw'', data), (''token'', AUTH_TOKEN cfg)]]\<rparr>)"
    by (auto simp add: handle_packet_def Let_def start_thread_def log_def packet_log_line_def)
  from 1 2 3 4 5 show ?thesis by blast
qed

theorem malformed_xml_dispatches_base_payload_witness:
  "ET_fromstring sample_lib ''<r>'' = Inl (Exception ''no element found: line 1, column 3'') \<and>
   parse_n1mm_xml sample_lib ''<r>'' world0 =
     (Inr [], \<lparr>log_lines = [''XML parse error: no element found: line 1, column 3''],
               posts = [], threads = []\<rparr>) \<and>
   try_parse_json sample_lib ''<r>'' = Inr [] \<and>
   threads (snd (handle_packet sample_lib default_config ''JTDX'' ''<r>'' (''127.0.0.1'', 2237) world0))
     = [[(''source'', ''JTDX''), (''data_raw'', ''<r>''), (''token'', ''ABC123'')]] \<and>
   threads (snd (handle_packet sample_lib default_config ''N1MM'' ''<r>'' (''127.0.0.1'', 12060) world0))
     = [[(''source'', ''N1MM''), (''data_raw'', ''<r>''), (''token'', ''ABC123'')]] \<and>
   ET_fromstring sample_lib json_null_text =
     Inl (Exception ''not well-formed (invalid token): line 1, column 0'') \<and>
   try_parse_json sample_lib json_null_text = Inr [(''a'', ''None'')] \<and>
   threads (snd (handle_packet sample_lib default_config ''JTDX'' json_null_text
       (''127.0.0.1'', 2237) world0))
     = [[(''source'', ''JTDX''), (''data_raw'', json_null_text), (''token'', ''ABC123''),
         (''a'', ''None'')]]"
  using malformed_xml_dispatches_base_payload [of sample_lib "''<r>''"
      "Exception ''no element found: line 1, column 3''" world0 default_config "''JTDX''" "(''127.0.0.1'', 2237)"]
    malformed_xml_dispatches_base_payload [of sample_lib "''<r>''"
      "Exception ''no element found: line 1, column 3''" world0 default_config "''N1MM''" "(''127.0.0.1'', 12060)"]
    malformed_xml_dispatches_base_payload [of sample_lib json_null_text
      "Exception ''not well-formed (invalid token): line 1, column 0''" world0 default_config
      "''JTDX''" "(''127.0.0.1'', 2237)"]
  by (simp add: sample_lib_def sample_texts sample_fromstring_def sample_loads_def try_parse_json_def
      default_config_def world0_def log_def  store_items_def)

section \<open>XML-first extraction\<close>

lemma child_key_namespace:
  "CHR ''}'' \<notin> set uri \<Longrightarrow> child_key (Element (''{'' @ uri @ ''}'' @ local) t cs) = local"
proof -
  assume "CHR ''}'' \<notin> set uri"
  then have "dropWhile (\<lambda>x. x \<noteq> CHR ''}'') uri = []"
    by auto
  then show ?thesis by (simp add: child_key_def)
qed

lemma store_child_ignores_children:
  "store_child (Element (elem_tag c) (elem_text c) []) = store_child c"
  by (simp add: store_child_def fun_eq_iff)

lemma fold_store_child_ignores_children:
  "fold store_child (map (\<lambda>c. Element (elem_tag c) (elem_text c) []) cs) acc = fold store_child cs acc"
  by (induction cs arbitrary: acc) (simp_all add: store_child_ignores_children)

lemma length_distinct_keys: "distinct (map fst out) \<Longrightarrow> length out = card (fst ` set out)"
  by (metis distinct_card length_map set_map)

text \<open>
  C2, as stated: a root with exactly N direct children gives a map with exactly N
  entries, one per child. The result is a dictionary, so two children with the same
  stripped tag share one entry: a root with two children \<open>a\<close> gives one entry.
\<close>

theorem repeated_tag_one_entry_counterexample:
  "ET_fromstring sample_lib ''<r><a>1</a><a>2</a></r>'' =
     Inr (Element ''r'' None [Element ''a'' (Some ''1'') [], Element ''a'' (Some ''2'') []]) \<and>
   length (elem_children
     (Element ''r'' None [Element ''a'' (Some ''1'') [], Element ''a'' (Some ''2'') []])) = 2 \<and>
   parse_n1mm_xml sample_lib ''<r><a>1</a><a>2</a></r>'' world0 = (Inr [(''a'', ''2'')], world0) \<and>
   length [(''a'', ''2'')] \<noteq> (2::nat)"
  by (simp add: parse_n1mm_xml_def sample_lib_def sample_texts sample_fromstring_def store_child_def Let_def)

text \<open>
  C2, amended: for every text the parser accepts, with root \<open>root\<close>, XML-first
  extraction returns normally and logs nothing; the map has one entry per distinct
  stripped tag of the root's direct children, so at most as many entries as children, and
  exactly one per child, in document order, when the stripped tags are pairwise distinct.
  The key is the child's tag without the prefix up to and including the first \<open>}\<close>,
  the value is the direct text (the empty string if there is none) of the last child with
  that key, and the result is the same when every grandchild is removed: grandchildren
  are never visited.
\<close>

theorem xml_fields_one_entry_per_distinct_tag:
  "ET_fromstring L data = Inr root \<Longrightarrow>
   (\<exists>out. parse_n1mm_xml L data w = (Inr out, w) \<and>
      fst ` set out = child_key ` set (elem_children root) \<and>
      distinct (map fst out) \<and>
      length out = card (child_key ` set (elem_children root)) \<and>
      length out \<le> length (elem_children root) \<and>
      map_of out = map_of (rev (map (\<lambda>c. (child_key c, child_value c)) (elem_children root))) \<and>
      (distinct (map child_key (elem_children root)) \<longrightarrow>
         out = map (\<lambda>c. (child_key c, child_value c)) (elem_children root)) \<and>
      out = fold store_child
              (map (\<lambda>c. Element (elem_tag c) (elem_text c) []) (elem_children root)) []) \<and>
   (\<forall>c uri local. elem_tag c = ''{'' @ uri @ ''}'' @ local \<and> CHR ''}'' \<notin> set uri \<longrightarrow>
      child_key c = local) \<and>
   (\<forall>c. CHR ''}'' \<notin> set (elem_tag c) \<longrightarrow> child_key c = elem_tag c) \<and>
   (\<forall>c. child_value c = (case elem_text c of Some t \<Rightarrow> t | None \<Rightarrow> ''''))"
proof -
  assume root: "ET_fromstring L data = Inr root"
  let ?cs = "elem_children root"
  let ?out = "xml_fields L data"
  have out: "?out = fold (\<lambda>c. AList.update (child_key c) (child_value c)) ?cs []"
    using root by (simp add: xml_fields_def fold_store_child)
  have 0: "parse_n1mm_xml L data w = (Inr ?out, w)"
    using root by (simp add: parse_n1mm_xml_eq)
  have 1: "fst ` set ?out = child_key ` set ?cs"
    unfolding out by (simp add: fold_update_keys)
  have 2: "distinct (map fst ?out)" by (rule xml_fields_distinct)
  have 3: "length ?out = card (child_key ` set ?cs)"
    using length_distinct_keys [OF 2] 1 by simp
  have 4: "length ?out \<le> length ?cs"
    unfolding 3 by (metis card_image_le card_length le_trans List.finite_set)
  have 5: "map_of ?out = map_of (rev (map (\<lambda>c. (child_key c, child_value c)) ?cs))"
    unfolding out by (simp add: fold_update_map_of)
  have 6: "distinct (map child_key ?cs) \<longrightarrow> ?out = map (\<lambda>c. (child_key c, child_value c)) ?cs"
    unfolding out using fold_update_append [of child_key ?cs "[]" child_value] by simp
  have 7: "?out = fold store_child (map (\<lambda>c. Element (elem_tag c) (elem_text c) []) ?cs) []"
    using root by (simp add: xml_fields_def fold_store_child_ignores_children)
  have 8: "\<forall>c uri local. elem_tag c = ''{'' @ uri @ ''}'' @ local \<and> CHR ''}'' \<notin> set uri \<longrightarrow>
      child_key c = local"
  proof (intro allI impI)
    fix c uri local
    assume "elem_tag c = ''{'' @ uri @ ''}'' @ local \<and> CHR ''}'' \<notin> set uri"
    then show "child_key c = local"
      using child_key_namespace [of uri local "elem_text c" "elem_children c"] by (cases c) simp
  qed
  have 9: "\<forall>c. CHR ''}'' \<notin> set (elem_tag c) \<longrightarrow> child_key c = elem_tag c"
    by (simp add: child_key_def)
  have 10: "\<forall>c. child_value c = (case elem_text c of Some t \<Rightarrow> t | None \<Rightarrow> '''')"
    by (simp add: child_value_def)
  from 0 1 2 3 4 5 6 7 have "\<exists>out. parse_n1mm_xml L data w = (Inr out, w) \<and>
      fst ` set out = child_key ` set ?cs \<and> distinct (map fst out) \<and>
      length out = card (child_key ` set ?cs) \<and> length out \<le> length ?cs \<and>
      map_of out = map_of (rev (map (\<lambda>c. (child_key c, child_value c)) ?cs)) \<and>
      (distinct (map child_key ?cs) \<longrightarrow> out = map (\<lambda>c. (child_key c, child_value c)) ?cs) \<and>
      out = fold store_child (map (\<lambda>c. Element (elem_tag c) (elem_text c) []) ?cs) []"
    by blast
  with 8 9 10 show ?thesis by blast
qed

theorem xml_fields_one_entry_per_distinct_tag_witness:
  "ET_fromstring sample_lib xml_ns_text =
     Inr (Element ''{u}r'' None
            [Element ''{u}a'' None [Element ''{u}b'' (Some ''1'') []], Element ''{u}c'' None []]) \<and>
   distinct (map child_key
     [Element ''{u}a'' None [Element ''{u}b'' (Some ''1'') []], Element ''{u}c'' None []]) \<and>
   child_key (Element ''{u}a'' None [Element ''{u}b'' (Some ''1'') []]) = ''a'' \<and>
   parse_n1mm_xml sample_lib xml_ns_text world0 = (Inr [(''a'', ''''), (''c'', '''')], world0)"
  using xml_fields_one_entry_per_distinct_tag [of sample_lib xml_ns_text
      "Element ''{u}r'' None
         [Element ''{u}a'' None [Element ''{u}b'' (Some ''1'') []], Element ''{u}c'' None []]" world0]
  by (simp add: parse_n1mm_xml_def sample_lib_def sample_texts sample_fromstring_def
      store_child_def py_split1_def child_key_def Let_def)

section \<open>JSON-first extraction\<close>

lemma try_parse_json_object:
  assumes "json_loads L data = Inr (JObj items)" and "distinct (map fst items)"
  shows "try_parse_json L data = Inr (map (\<lambda>kv. (fst kv, py_str (float_repr L) (snd kv))) items)"
  using assms fold_update_append [of fst items "[]" "\<lambda>kv. py_str (float_repr L) (snd kv)"]
  by (simp add: try_parse_json_def)

lemma map_of_stringified:
  assumes "distinct (map fst items)" and "(k, v) \<in> set items"
  shows "map_of (map (\<lambda>kv. (fst kv, f (snd kv))) items) k = Some (f v)"
proof -
  have "map_of items k = Some v"
    using assms by (rule map_of_is_SomeI)
  moreover have "map_of (map (\<lambda>kv. (fst kv, f (snd kv))) items) k = map_option f (map_of items k)"
    by (induction items) auto
  ultimately show ?thesis by simp
qed

lemma digit_char_code: "d < 10 \<Longrightarrow> (of_char (digit_char d) :: nat) = 48 + d"
proof -
  assume "d < 10"
  then consider "d = 0" | "d = 1" | "d = 2" | "d = 3" | "d = 4" | "d = 5" | "d = 6" | "d = 7"
    | "d = 8" | "d = 9" by atomize_elim arith
  then show ?thesis by cases (simp_all add: digit_char_def)
qed

lemma decimal_value_snoc:
  "decimal_value (ds @ [c]) = 10 * decimal_value ds + (of_char c - 48)"
  by (simp add: decimal_value_def)

lemma digits_decimal:
  "digits n \<noteq> [] \<and> list_all is_digit (digits n) \<and> decimal_value (digits n) = n \<and>
   (hd (digits n) = CHR ''0'' \<longrightarrow> n = 0)"
proof (induction n rule: digits.induct)
  case (1 n)
  show ?case
  proof (cases "n < 10")
    case True
    then have d: "digits n = [digit_char n]" by (simp add: digits.simps)
    have c: "(of_char (digit_char n) :: nat) = 48 + n" using True by (rule digit_char_code)
    have "digit_char n = CHR ''0'' \<longrightarrow> n = 0"
    proof
      assume "digit_char n = CHR ''0''"
      then have "(of_char (digit_char n) :: nat) = 48" by simp
      with c show "n = 0" by simp
    qed
    then show ?thesis using d c True by (simp add: is_digit_def decimal_value_def Let_def)
  next
    case False
    then have d: "digits n = digits (n div 10) @ [digit_char (n mod 10)]"
      by (subst digits.simps) simp
    from "1.IH" [OF False] have IH: "digits (n div 10) \<noteq> []"
      "list_all is_digit (digits (n div 10))" "decimal_value (digits (n div 10)) = n div 10"
      "hd (digits (n div 10)) = CHR ''0'' \<longrightarrow> n div 10 = 0" by blast+
    have c: "(of_char (digit_char (n mod 10)) :: nat) = 48 + n mod 10"
      by (rule digit_char_code) simp
    have nz: "n div 10 \<noteq> 0" using False by simp
    have "decimal_value (digits n) = 10 * (n div 10) + n mod 10"
      unfolding d decimal_value_snoc using IH(3) c by simp
    then have v: "decimal_value (digits n) = n" by simp
    have h: "hd (digits n) = hd (digits (n div 10))" unfolding d using IH(1) by simp
    have g: "is_digit (digit_char (n mod 10))"
      unfolding is_digit_def Let_def c by simp
    show ?thesis using IH(1,2,4) g v nz unfolding h by (simp add: d)
  qed
qed

lemma py_str_int_decimal: "is_decimal_of (py_str_int i) i"
proof (cases "i < 0")
  case True
  have "canonical_decimal (digits (nat (- i)))"
    using digits_decimal [of "nat (- i)"] True
    by (auto simp: canonical_decimal_def)
  moreover have "int (decimal_value (digits (nat (- i)))) = - i"
    using digits_decimal [of "nat (- i)"] True by simp
  ultimately show ?thesis using True by (simp add: is_decimal_of_def py_str_int_def)
next
  case False
  have z: "digits 0 = ''0''" by (simp add: digits.simps digit_char_def)
  have "canonical_decimal (digits (nat i))"
    using digits_decimal [of "nat i"] z by (auto simp: canonical_decimal_def)
  moreover have "int (decimal_value (digits (nat i))) = i"
    using digits_decimal [of "nat i"] False by simp
  ultimately show ?thesis using False by (simp add: is_decimal_of_def py_str_int_def)
qed

lemma repr_char_plain:
  "printable_ascii c \<Longrightarrow> c \<noteq> CHR 0x5C \<Longrightarrow> c \<noteq> q \<Longrightarrow> repr_char False q c = [c]"
  by (auto simp: repr_char_def printable_ascii_def Let_def)

lemma repr_chars_plain:
  "list_all printable_ascii s \<Longrightarrow> CHR 0x5C \<notin> set s \<Longrightarrow> q \<notin> set s \<Longrightarrow>
   concat (map (repr_char False q) s) = s"
  by (induction s) (auto simp: repr_char_plain)

lemma py_repr_str_plain:
  assumes "list_all printable_ascii s" "CHR 0x5C \<notin> set s"
  shows "CHR 0x27 \<notin> set s \<Longrightarrow> py_repr_str s = [CHR 0x27] @ s @ [CHR 0x27]"
    and "CHR 0x27 \<in> set s \<Longrightarrow> CHR 0x22 \<notin> set s \<Longrightarrow> py_repr_str s = [CHR 0x22] @ s @ [CHR 0x22]"
  using assms by (simp_all add: py_repr_str_def repr_quote_def repr_chars_plain Let_def)

lemma join_concat:
  "join sep [] = [] \<and> (xs \<noteq> [] \<longrightarrow> join sep xs = hd xs @ concat (map (\<lambda>x. sep @ x) (tl xs)))"
  by (induction sep xs rule: join.induct) simp_all

lemma py_repr_str_escapes:
  "py_repr_str [CHR ''a'', CHR 0x27, CHR 0x22, CHR ''b'']
     = [CHR 0x27, CHR ''a'', CHR 0x5C, CHR 0x27, CHR 0x22, CHR ''b'', CHR 0x27]"
  "py_repr_str [CHR 0x0A, CHR 0x5C, CHR 0x00, CHR 0xE9, CHR 0x85, CHR 0xA0, CHR 0xAD, CHR 0x7F, CHR 0x09, CHR 0x0D]
     = [CHR 0x27] @ [CHR 0x5C] @ ''n'' @ [CHR 0x5C, CHR 0x5C] @ [CHR 0x5C] @ ''x00'' @ [CHR 0xE9]
       @ [CHR 0x5C] @ ''x85'' @ [CHR 0x5C] @ ''xa0'' @ [CHR 0x5C] @ ''xad'' @ [CHR 0x5C] @ ''x7f''
       @ [CHR 0x5C] @ ''t'' @ [CHR 0x5C] @ ''r'' @ [CHR 0x27]"
  by (simp_all add: py_repr_str_def repr_quote_def repr_char_def py_isprintable_def hex2_def
      digit_char_def Let_def)

lemma py_repr_examples:
  "py_repr fr (JArr [JInt 1, JInt 2]) = ''[1, 2]''"
  "py_repr fr (JObj [(''a'', JInt 1)]) = ''{'' @ [CHR 0x27] @ ''a'' @ [CHR 0x27] @ '': 1}''"
  "py_repr fr (JArr []) = ''[]''"
  "py_repr fr (JObj []) = ''{}''"
  "py_repr fr (JArr [JStr ''FT8'', JNull, JBool False, JInt (- 73), JArr [JInt 0]])
     = ''['' @ [CHR 0x27] @ ''FT8'' @ [CHR 0x27] @ '', None, False, -73, [0]]''"
  by (simp_all add: py_str_int_def digits.simps digit_char_def py_repr_str_def repr_quote_def
      repr_char_def Let_def)

text \<open>
  C9: for every JSON object that \<open>json.loads\<close> returns, the fields are the object's keys
  in their order, each with its value passed through Python's \<open>str\<close>: a string is
  kept as it is, an integer becomes its decimal numeral, a float its \<open>repr\<close>,
  \<open>true\<close> and \<open>false\<close> become \<open>True\<close> and \<open>False\<close>, an array becomes the
  bracketed list of the \<open>repr\<close> of its elements and an object the braced list of
  \<open>repr(key): repr(value)\<close>, joined by a comma and a blank. Inside them \<open>repr\<close> quotes
  a string, with \<open>'\<close> unless the string has a \<open>'\<close> and no \<open>"\<close>, and escapes what does
  not print; so \<open>[1, 2]\<close> and \<open>{'a': 1}\<close>, where JSON would write \<open>true\<close>,
  \<open>false\<close> and double quotes.
\<close>

theorem json_values_stringified_by_str:
  "json_loads L data = Inr (JObj items) \<Longrightarrow> distinct (map fst items) \<Longrightarrow>
   (\<exists>j. try_parse_json L data = Inr j \<and> map fst j = map fst items \<and>
      (\<forall>k s. (k, JStr s) \<in> set items \<longrightarrow> map_of j k = Some s) \<and>
      (\<forall>k i. (k, JInt i) \<in> set items \<longrightarrow> (\<exists>t. map_of j k = Some t \<and> is_decimal_of t i)) \<and>
      (\<forall>k x. (k, JFloat x) \<in> set items \<longrightarrow> map_of j k = Some (float_repr L x)) \<and>
      (\<forall>k. (k, JNull) \<in> set items \<longrightarrow> map_of j k = Some ''None'') \<and>
      (\<forall>k b. (k, JBool b) \<in> set items \<longrightarrow> map_of j k = Some (if b then ''True'' else ''False'')) \<and>
      (\<forall>k xs. (k, JArr xs) \<in> set items \<longrightarrow>
         map_of j k = Some (''['' @ join '', '' (map (py_repr (float_repr L)) xs) @ '']'')) \<and>
      (\<forall>k kvs. (k, JObj kvs) \<in> set items \<longrightarrow>
         map_of j k = Some (''{'' @ join '', ''
           (map (\<lambda>kv. py_repr_str (fst kv) @ '': '' @ py_repr (float_repr L) (snd kv)) kvs) @ ''}''))) \<and>
   py_repr (float_repr L) JNull = ''None'' \<and>
   py_repr (float_repr L) (JBool True) = ''True'' \<and>
   py_repr (float_repr L) (JBool False) = ''False'' \<and>
   (\<forall>i. is_decimal_of (py_repr (float_repr L) (JInt i)) i) \<and>
   (\<forall>x. py_repr (float_repr L) (JFloat x) = float_repr L x) \<and>
   (\<forall>s. list_all printable_ascii s \<and> CHR 0x5C \<notin> set s \<and> CHR 0x27 \<notin> set s \<longrightarrow>
      py_repr (float_repr L) (JStr s) = [CHR 0x27] @ s @ [CHR 0x27]) \<and>
   (\<forall>s. list_all printable_ascii s \<and> CHR 0x5C \<notin> set s \<and> CHR 0x27 \<in> set s \<and> CHR 0x22 \<notin> set s \<longrightarrow>
      py_repr (float_repr L) (JStr s) = [CHR 0x22] @ s @ [CHR 0x22]) \<and>
   (\<forall>sep. join sep [] = []) \<and>
   (\<forall>sep xs. xs \<noteq> [] \<longrightarrow> join sep xs = hd xs @ concat (map (\<lambda>x. sep @ x) (tl xs))) \<and>
   py_repr (float_repr L) (JArr [JInt 1, JInt 2]) = ''[1, 2]'' \<and>
   py_repr (float_repr L) (JObj [(''a'', JInt 1)]) = ''{'' @ [CHR 0x27] @ ''a'' @ [CHR 0x27] @ '': 1}'' \<and>
   py_repr (float_repr L) (JArr [JStr ''FT8'', JNull, JBool False, JInt (- 73), JArr [JInt 0]])
     = ''['' @ [CHR 0x27] @ ''FT8'' @ [CHR 0x27] @ '', None, False, -73, [0]]'' \<and>
   py_repr (float_repr L) (JStr [CHR ''a'', CHR 0x27, CHR 0x22, CHR ''b''])
     = [CHR 0x27, CHR ''a'', CHR 0x5C, CHR 0x27, CHR 0x22, CHR ''b'', CHR 0x27]"
proof -
  assume loads: "json_loads L data = Inr (JObj items)" and d: "distinct (map fst items)"
  let ?fr = "float_repr L"
  let ?j = "map (\<lambda>kv. (fst kv, py_str ?fr (snd kv))) items"
  have 0: "try_parse_json L data = Inr ?j"
    using loads d by (rule try_parse_json_object)
  have k: "map fst ?j = map fst items" by (simp add: comp_def)
  have s: "\<forall>k s. (k, JStr s) \<in> set items \<longrightarrow> map_of ?j k = Some s"
    using map_of_stringified [OF d, of _ "JStr _" "py_str ?fr"] by simp
  have i: "\<forall>k i. (k, JInt i) \<in> set items \<longrightarrow> (\<exists>t. map_of ?j k = Some t \<and> is_decimal_of t i)"
    using map_of_stringified [OF d, of _ "JInt _" "py_str ?fr"] py_str_int_decimal by simp
  have f: "\<forall>k x. (k, JFloat x) \<in> set items \<longrightarrow> map_of ?j k = Some (?fr x)"
    using map_of_stringified [OF d, of _ "JFloat _" "py_str ?fr"] by simp
  have n: "\<forall>k. (k, JNull) \<in> set items \<longrightarrow> map_of ?j k = Some ''None''"
    using map_of_stringified [OF d, of _ JNull "py_str ?fr"] by simp
  have b: "\<forall>k b. (k, JBool b) \<in> set items \<longrightarrow> map_of ?j k = Some (if b then ''True'' else ''False'')"
    using map_of_stringified [OF d, of _ "JBool _" "py_str ?fr"] by simp
  have a: "\<forall>k xs. (k, JArr xs) \<in> set items \<longrightarrow>
         map_of ?j k = Some (''['' @ join '', '' (map (py_repr ?fr) xs) @ '']'')"
    using map_of_stringified [OF d, of _ "JArr _" "py_str ?fr"] by simp
  have o: "\<forall>k kvs. (k, JObj kvs) \<in> set items \<longrightarrow>
         map_of ?j k = Some (''{'' @ join '', ''
           (map (\<lambda>kv. py_repr_str (fst kv) @ '': '' @ py_repr ?fr (snd kv)) kvs) @ ''}'')"
    using map_of_stringified [OF d, of _ "JObj _" "py_str ?fr"] by simp
  have top: "\<exists>j. try_parse_json L data = Inr j \<and> map fst j = map fst items \<and>
      (\<forall>k s. (k, JStr s) \<in> set items \<longrightarrow> map_of j k = Some s) \<and>
      (\<forall>k i. (k, JInt i) \<in> set items \<longrightarrow> (\<exists>t. map_of j k = Some t \<and> is_decimal_of t i)) \<and>
      (\<forall>k x. (k, JFloat x) \<in> set items \<longrightarrow> map_of j k = Some (?fr x)) \<and>
      (\<forall>k. (k, JNull) \<in> set items \<longrightarrow> map_of j k = Some ''None'') \<and>
      (\<forall>k b. (k, JBool b) \<in> set items \<longrightarrow> map_of j k = Some (if b then ''True'' else ''False'')) \<and>
      (\<forall>k xs. (k, JArr xs) \<in> set items \<longrightarrow>
         map_of j k = Some (''['' @ join '', '' (map (py_repr ?fr) xs) @ '']'')) \<and>
      (\<forall>k kvs. (k, JObj kvs) \<in> set items \<longrightarrow>
         map_of j k = Some (''{'' @ join '', ''
           (map (\<lambda>kv. py_repr_str (fst kv) @ '': '' @ py_repr ?fr (snd kv)) kvs) @ ''}''))"
    using 0 k s i f n b a o by blast
  have leaves: "py_repr ?fr JNull = ''None''" "py_repr ?fr (JBool True) = ''True''"
    "py_repr ?fr (JBool False) = ''False''" "\<forall>i. is_decimal_of (py_repr ?fr (JInt i)) i"
    "\<forall>x. py_repr ?fr (JFloat x) = ?fr x"
    by (simp_all add: py_str_int_decimal)
  have q1: "\<forall>s. list_all printable_ascii s \<and> CHR 0x5C \<notin> set s \<and> CHR 0x27 \<notin> set s \<longrightarrow>
      py_repr ?fr (JStr s) = [CHR 0x27] @ s @ [CHR 0x27]"
    using py_repr_str_plain(1) by simp
  have q2: "\<forall>s. list_all printable_ascii s \<and> CHR 0x5C \<notin> set s \<and> CHR 0x27 \<in> set s \<and> CHR 0x22 \<notin> set s \<longrightarrow>
      py_repr ?fr (JStr s) = [CHR 0x22] @ s @ [CHR 0x22]"
    using py_repr_str_plain(2) by simp
  have j1: "\<forall>sep. join sep [] = []" by simp
  have j2: "\<forall>sep xs. xs \<noteq> [] \<longrightarrow> join sep xs = hd xs @ concat (map (\<lambda>x. sep @ x) (tl xs))"
    using join_concat by blast
  have e4: "py_repr ?fr (JStr [CHR ''a'', CHR 0x27, CHR 0x22, CHR ''b''])
     = [CHR 0x27, CHR ''a'', CHR 0x5C, CHR 0x27, CHR 0x22, CHR ''b'', CHR 0x27]"
    using py_repr_str_escapes(1) by simp
  show ?thesis
    using top leaves q1 q2 j1 j2 py_repr_examples(1,2,5) [of ?fr] e4 by blast
qed

theorem json_values_stringified_by_str_witness:
  "json_loads sample_lib json_freq_text =
     Inr (JObj [(''freq'', JInt 14074000), (''mode'', JStr ''FT8'')]) \<and>
   distinct (map fst [(''freq'', JInt 14074000), (''mode'', JStr ''FT8'' :: unit json)]) \<and>
   try_parse_json sample_lib json_freq_text = Inr [(''freq'', ''14074000''), (''mode'', ''FT8'')] \<and>
   json_loads sample_lib json_nested_text =
     Inr (JObj [(''ok'', JBool True), (''xs'', JArr [JInt 1, JInt 2]), (''o'', JObj [(''a'', JInt 1)])]) \<and>
   try_parse_json sample_lib json_nested_text =
     Inr [(''ok'', ''True''), (''xs'', ''[1, 2]''),
          (''o'', ''{'' @ [CHR 0x27] @ ''a'' @ [CHR 0x27] @ '': 1}'')]"
  using json_values_stringified_by_str [of sample_lib json_freq_text
      "[(''freq'', JInt 14074000), (''mode'', JStr ''FT8'')]"]
    json_values_stringified_by_str [of sample_lib json_nested_text
      "[(''ok'', JBool True), (''xs'', JArr [JInt 1, JInt 2]), (''o'', JObj [(''a'', JInt 1)])]"]
  by (simp add: sample_lib_def sample_texts sample_loads_def try_parse_json_def
      py_str_int_def digits.simps digit_char_def py_repr_str_def repr_quote_def repr_char_def
      Let_def)

lemma json_fields_cases:
  "json_loads L data = Inl e \<Longrightarrow> json_fields L data = []"
  "json_loads L data = Inr v \<Longrightarrow> \<forall>items. v \<noteq> JObj items \<Longrightarrow> json_fields L data = []"
  "json_loads L data = Inr (JObj []) \<Longrightarrow> json_fields L data = []"
  "json_loads L data = Inr (JObj items) \<Longrightarrow> items \<noteq> [] \<Longrightarrow> json_fields L data \<noteq> []"
proof -
  show "json_loads L data = Inl e \<Longrightarrow> json_fields L data = []"
    by (simp add: json_fields_def try_parse_json_def)
  show "json_loads L data = Inr v \<Longrightarrow> \<forall>items. v \<noteq> JObj items \<Longrightarrow> json_fields L data = []"
    by (cases v) (simp_all add: json_fields_def try_parse_json_def)
  show "json_loads L data = Inr (JObj []) \<Longrightarrow> json_fields L data = []"
    by (simp add: json_fields_def try_parse_json_def)
  show "json_fields L data \<noteq> []" if "json_loads L data = Inr (JObj items)" and "items \<noteq> []"
  proof -
    from that(2) obtain kv rest where items: "items = kv # rest" by (cases items) auto
    have "fst kv \<in> fst ` set (json_fields L data)"
      using that(1) unfolding items
      by (simp add: json_fields_def try_parse_json_def fold_update_keys dom_update)
    then show ?thesis by auto
  qed
qed

text \<open>
  C3, as stated: when the text parses as a JSON object, the empty object included, no XML
  extraction is attempted. The handler tests the fields for being non-empty, so the text
  \<open>{}\<close> goes on to the XML parser, whose error is logged.
\<close>

theorem empty_object_attempts_xml_counterexample:
  "json_loads sample_lib ''{}'' = Inr (JObj []) \<and>
   log_lines (snd (handle_packet sample_lib default_config ''JTDX'' ''{}'' (''127.0.0.1'', 2237) world0))
     = [packet_log_line ''JTDX'' ''{}'' (''127.0.0.1'', 2237),
        ''XML parse error: not well-formed (invalid token): line 1, column 0'']"
  by (simp add: handle_packet_def try_parse_json_def parse_n1mm_xml_def sample_lib_def sample_texts
      sample_loads_def sample_fromstring_def  default_config_def world0_def
      store_items_def start_thread_def log_def packet_log_line_def Let_def)

text \<open>
  C3, amended: for a source other than \<open>N1MM\<close>, if the text parses as a non-empty
  JSON object, the fields are that object with every value converted by \<open>str\<close> and
  no XML extraction is attempted (only the packet line is logged); if JSON parsing fails,
  or the parsed value is not an object, or it is the empty object, XML-first extraction is
  applied to the same text and its result is what is dispatched.
\<close>

theorem json_first_falls_back_on_empty_object:
  "source \<noteq> ''N1MM'' \<Longrightarrow>
   (\<forall>items. json_loads L data = Inr (JObj items) \<and> items \<noteq> [] \<and> distinct (map fst items) \<longrightarrow>
      handle_packet L cfg source data addr w =
        (Inr (), w\<lparr>log_lines := log_lines w @ [packet_log_line source data addr],
                   threads := threads w @
                     [store_items (map (\<lambda>kv. (fst kv, py_str (float_repr L) (snd kv))) items)
                        (base_payload cfg source data)]\<rparr>)) \<and>
   ((\<exists>e. json_loads L data = Inl e) \<or>
    (\<exists>v. json_loads L data = Inr v \<and> (\<forall>items. v \<noteq> JObj items)) \<or>
    json_loads L data = Inr (JObj []) \<longrightarrow>
      (\<exists>parsed w2. parse_n1mm_xml L data (log (packet_log_line source data addr) w) = (Inr parsed, w2) \<and>
         handle_packet L cfg source data addr w =
           (Inr (), w2\<lparr>threads := threads w2 @ [store_items parsed (base_payload cfg source data)]\<rparr>)))"
proof -
  assume src: "source \<noteq> ''N1MM''"
  have a: "handle_packet L cfg source data addr w =
        (Inr (), w\<lparr>log_lines := log_lines w @ [packet_log_line source data addr],
                   threads := threads w @
                     [store_items (map (\<lambda>kv. (fst kv, py_str (float_repr L) (snd kv))) items)
                        (base_payload cfg source data)]\<rparr>)"
    if "json_loads L data = Inr (JObj items)" and "items \<noteq> []" and "distinct (map fst items)" for items
  proof -
    have "json_fields L data = map (\<lambda>kv. (fst kv, py_str (float_repr L) (snd kv))) items"
      using try_parse_json_object [OF that(1) that(3)] by (simp add: json_fields_def)
    moreover have "json_fields L data \<noteq> []"
      using that(1) that(2) by (rule json_fields_cases)
    ultimately show ?thesis
      using src by (simp add: handle_packet_eq extracted_fields_def start_thread_def log_def)
  qed
  have b: "\<exists>parsed w2. parse_n1mm_xml L data (log (packet_log_line source data addr) w) = (Inr parsed, w2) \<and>
         handle_packet L cfg source data addr w =
           (Inr (), w2\<lparr>threads := threads w2 @ [store_items parsed (base_payload cfg source data)]\<rparr>)"
    if "(\<exists>e. json_loads L data = Inl e) \<or>
        (\<exists>v. json_loads L data = Inr v \<and> (\<forall>items. v \<noteq> JObj items)) \<or>
        json_loads L data = Inr (JObj [])"
  proof -
    from that have "json_fields L data = []"
      using json_fields_cases(1-3) by blast
    then show ?thesis
      using src by (simp add: handle_packet_eq extracted_fields_def start_thread_def parse_n1mm_xml_eq)
  qed
  from a b show ?thesis by blast
qed

theorem json_first_falls_back_on_empty_object_witness:
  "''JTDX'' \<noteq> ''N1MM'' \<and>
   json_loads sample_lib json_null_text = Inr (JObj [(''a'', JNull)]) \<and>
   handle_packet sample_lib default_config ''JTDX'' json_null_text (''127.0.0.1'', 2237) world0 =
     (Inr (), \<lparr>log_lines = [packet_log_line ''JTDX'' json_null_text (''127.0.0.1'', 2237)],
               posts = [],
               threads = [[(''source'', ''JTDX''), (''data_raw'', json_null_text),
                           (''token'', ''ABC123''), (''a'', ''None'')]]\<rparr>) \<and>
   json_loads sample_lib ''[1, 2]'' = Inr (JArr [JInt 1, JInt 2]) \<and>
   handle_packet sample_lib default_config ''JTDX'' ''[1, 2]'' (''127.0.0.1'', 2237) world0 =
     (Inr (), \<lparr>log_lines = [packet_log_line ''JTDX'' ''[1, 2]'' (''127.0.0.1'', 2237),
                            ''XML parse error: syntax error: line 1, column 0''],
               posts = [],
               threads = [[(''source'', ''JTDX''), (''data_raw'', ''[1, 2]''),
                           (''token'', ''ABC123'')]]\<rparr>)"
  using json_first_falls_back_on_empty_object [of "''JTDX''" sample_lib json_null_text
      default_config "(''127.0.0.1'', 2237)" world0]
    json_first_falls_back_on_empty_object [of "''JTDX''" sample_lib "''[1, 2]''"
      default_config "(''127.0.0.1'', 2237)" world0]
  by (simp add: sample_lib_def sample_texts sample_loads_def sample_fromstring_def  default_config_def world0_def base_payload_def
      store_items_def parse_n1mm_xml_def log_def)

section \<open>Absent text and null values\<close>

text \<open>
  C4: a field whose value is absent or null is to be the empty string. The XML path
  does so: the child \<open>c\<close> of the sample document has no text and its field is the empty
  string. The JSON path does not: it passes every value through \<open>str\<close>, and for the
  packet \<open>{"a": null}\<close> the field \<open>a\<close> is extracted, and dispatched, as the four
  letters \<open>None\<close>.
\<close>

theorem json_null_is_dispatched_as_None_text:
  "json_loads sample_lib json_null_text = Inr (JObj [(''a'', JNull)]) \<and>
   try_parse_json sample_lib json_null_text = Inr [(''a'', ''None'')] \<and>
   map_of [(''a'', ''None'')] ''a'' \<noteq> Some [] \<and>
   threads (snd (handle_packet sample_lib default_config ''JTDX'' json_null_text
       (''127.0.0.1'', 2237) world0))
     = [[(''source'', ''JTDX''), (''data_raw'', json_null_text), (''token'', ''ABC123''),
         (''a'', ''None'')]] \<and>
   elem_text (Element ''{u}c'' None []) = None \<and>
   fst (parse_n1mm_xml sample_lib xml_ns_text world0) = Inr [(''a'', []), (''c'', [])]"
  by (simp add: handle_packet_def try_parse_json_def parse_n1mm_xml_def sample_lib_def
      sample_texts sample_loads_def sample_fromstring_def default_config_def world0_def
      store_items_def store_child_def py_split1_def start_thread_def log_def Let_def)

end
